theory Spec2Isabelle
  imports Main
begin

section \<open>Values of the host language\<close>

text \<open>
  Device properties are \<^verbatim>\<open>string | number | boolean\<close> (\<^verbatim>\<open>PrimitiveType\<close>); the
  engine also handles \<^verbatim>\<open>undefined\<close> (a key missing from the cache object) and
  \<^verbatim>\<open>null\<close> (the sentinel of \<^verbatim>\<open>getProp\<close>). The numbers of the model are the integers,
  with \<^verbatim>\<open>NaN\<close> apart (a result \<^verbatim>\<open>parseInt\<close> can give); the engine itself only tests
  numbers for truthiness and passes them on.
\<close>

datatype jsval = JUndefined | JNull | JBool bool | JNum int | JNaN | JStr string

text \<open>JavaScript truthiness, as tested by \<^verbatim>\<open>x ? a : b\<close> and \<^verbatim>\<open>!x\<close>.\<close>

fun truthy :: "jsval \<Rightarrow> bool" where
  "truthy JUndefined = False"
| "truthy JNull = False"
| "truthy (JBool b) = b"
| "truthy (JNum n) = (n \<noteq> 0)"
| "truthy JNaN = False"
| "truthy (JStr s) = (s \<noteq> [])"

text \<open>
  A thrown value: an \<^verbatim>\<open>Error\<close> object with its constructor name and message;
  the flag says whether it is an instance of \<^verbatim>\<open>miio.ProtocolError\<close>.
\<close>

datatype js_error = JsError (is_ProtocolError: bool) (err_name: string) (err_message: string)

text \<open>An object with string keys (\<^verbatim>\<open>PropsType\<close>, \<^verbatim>\<open>HistoryServiceEntry\<close>).\<close>

type_synonym js_object = "string \<rightharpoonup> jsval"

text \<open>\<^verbatim>\<open>obj[key]\<close>: a missing key reads as \<^verbatim>\<open>undefined\<close>.\<close>

definition js_get :: "js_object \<Rightarrow> string \<Rightarrow> jsval" where
  "js_get obj k = (case obj k of None \<Rightarrow> JUndefined | Some v \<Rightarrow> v)"

section \<open>The collaborators\<close>

subsection \<open>History Log\<close>

type_synonym history_entry = js_object

text \<open>
  Modelled from the spec: the class \<^verbatim>\<open>EveHistoryService\<close> of \<^verbatim>\<open>../lib/eve-history\<close> is
  not among the sources. The spec gives the History Log, for each channel, an append-only
  store of entries of which the most recent is the one live record (the current open
  entry), \<^verbatim>\<open>getCurrentEntry(channel) -> Entry | absent\<close> and
  \<^verbatim>\<open>appendOrUpdateEntry(channel, Entry)\<close>: handed the open entry, the log updates it; handed
  any other entry, it appends that one. The state of one handle is the list of its entries,
  oldest first, empty for a handle just made. Objects have no identity here, so a flag tells
  \<open>addEntry\<close> whether the entry it is handed is the open entry of the log.
\<close>

type_synonym history_service = "history_entry list"

definition EveHistoryService_new :: history_service where
  "EveHistoryService_new = []"

definition getLastEntry :: "history_service \<Rightarrow> history_entry option" where
  "getLastEntry hs = (if hs = [] then None else Some (last hs))"

definition addEntry :: "history_service \<Rightarrow> bool \<Rightarrow> history_entry \<Rightarrow> history_service" where
  "addEntry hs is_open e = (if is_open \<and> hs \<noteq> [] then butlast hs @ [e] else hs @ [e])"

subsection \<open>Accessory Host and Device Protocol\<close>

text \<open>
  A characteristic object of the host is named by the id of its service and its own UUID.
\<close>

type_synonym char_ref = "string \<times> string"

text \<open>
  A transform of the Feature Table is a function of the host language: it returns a value
  or throws.
\<close>

type_synonym transform = "jsval \<Rightarrow> js_error + jsval"

text \<open>
  The closure \<^verbatim>\<open>getMap\<close> that \<^verbatim>\<open>register\<close> builds: the configured map (or the identity),
  or that map wrapped for a binding with \<^verbatim>\<open>historyType\<close> and \<^verbatim>\<open>historyKey\<close>.
\<close>

datatype read_map = BaseMap transform | HistoryMap transform string string

record get_value =
  gv_characteristic :: char_ref
  gv_map :: read_map

text \<open>\<^verbatim>\<open>GetEntry\<close>: a property key and the characteristics fed from it.\<close>

record get_entry =
  ge_key :: string
  ge_values :: "get_value list"

text \<open>
  The hooks of a write act on the world outside the engine (the device behind the protocol
  handle they are given, the host); \<open>'w\<close> is the state of that world. The fields of the engine
  are private to it.
\<close>

type_synonym 'w beforeSet_func = "jsval \<times> char_ref \<Rightarrow> 'w \<Rightarrow> (js_error + jsval) \<times> 'w"
type_synonym 'w afterSet_func = "jsval \<times> jsval \<times> char_ref \<Rightarrow> 'w \<Rightarrow> (js_error + unit) \<times> 'w"

text \<open>\<^verbatim>\<open>SetEntry\<close>.\<close>

record 'w set_entry =
  se_key :: string
  se_characteristic :: char_ref
  se_call :: string
  se_map :: transform
  se_beforeSet :: "'w beforeSet_func option"
  se_afterSet :: "'w afterSet_func option"

text \<open>\<^verbatim>\<open>Protocol\<close>: the two device calls the engine makes.\<close>

record 'w protocol =
  p_getProps :: "string list \<Rightarrow> 'w \<Rightarrow> (js_error + js_object) \<times> 'w"
  p_setProp :: "string \<Rightarrow> string \<Rightarrow> jsval \<Rightarrow> 'w \<Rightarrow> (js_error + unit) \<times> 'w"

text \<open>
  What the engine does to its collaborators, in the order it does it: the device calls, the
  hooks, the calls on characteristic objects, the acknowledgments, the History Log calls and
  the error reports of the logger. Debug logging is left out.
\<close>

datatype 'w event =
    GetPropsCall "string list"
  | SetPropCall string string jsval
  | BeforeSetCall jsval char_ref
  | AfterSetCall jsval jsval char_ref
  | UpdateValue char_ref jsval
  | SetProps char_ref string
  | SetValue char_ref jsval
  | OnGetValue char_ref nat
  | OnGet char_ref string read_map
  | OnSet char_ref "'w set_entry"
  | GetCallback jsval
  | SetCallback "js_error option"
  | GetLastEntryCall string
  | AddEntryCall string history_entry
  | LogError js_error
  | LogWarn

text \<open>
  The surroundings of a run: the outside world, the clock (\<open>clock n\<close> is the \<open>n\<close>th reading
  of \<^verbatim>\<open>new Date().valueOf()\<close>, in milliseconds), the trace of events, and one built-in
  of the host language: \<open>parseInt_blank x\<close> is the value of
  \<^verbatim>\<open>parseInt(" " + x.valueOf())\<close>. The built-in is not code of the repository; it is
  taken as it is, and nothing is assumed of it.
\<close>

record 'w rt =
  world :: 'w
  clock :: "nat \<Rightarrow> int"
  clock_reads :: nat
  parseInt_blank :: "jsval \<Rightarrow> jsval"
  events :: "'w event list"

definition emit :: "'w event \<Rightarrow> 'w rt \<Rightarrow> 'w rt" where
  "emit e rt = rt\<lparr>events := events rt @ [e]\<rparr>"

text \<open>\<^verbatim>\<open>Math.round(new Date().valueOf() / 1000)\<close>: halves round up.\<close>

definition now_seconds :: "'w rt \<Rightarrow> int \<times> 'w rt" where
  "now_seconds rt =
     ((clock rt (clock_reads rt) + 500) div 1000, rt\<lparr>clock_reads := Suc (clock_reads rt)\<rparr>)"

section \<open>The Feature Table\<close>

text \<open>A service class of the host: its UUID and the characteristics its constructor adds.\<close>

record service_class =
  sc_UUID :: string
  sc_required :: "string list"

record 'w set_config =
  set_call :: string
  set_map :: "transform option"
  set_beforeSet :: "'w beforeSet_func option"
  set_afterSet :: "'w afterSet_func option"

text \<open>
  \<^verbatim>\<open>CharacteristicConfig\<close>: static (a constant, or a get-callback given by its number) or
  dynamic (a device key, a read map, a write path).
\<close>

datatype config_value = ValueCallback nat | ValueConst jsval

datatype 'w variant =
    Static config_value
  | Dynamic string "transform option" "'w set_config option"

record 'w feature =
  f_service :: service_class
  f_name :: "(string \<times> string) option"
  f_characteristic :: string
  f_props :: "string option"
  f_variant :: "'w variant"
  f_historyKey :: "string option"
  f_historyType :: "string option"

section \<open>The engine: \<^verbatim>\<open>BaseHumidifier\<close>\<close>

record 'w engine =
  features :: "'w feature list"
  protocol :: "'w protocol"
  props :: "get_entry list"
  cache :: js_object
  historyServices :: "string \<rightharpoonup> history_service"

text \<open>The constructor: no property registered, an empty cache, no history handle.\<close>

definition new_engine :: "'w protocol \<Rightarrow> 'w feature list \<Rightarrow> 'w engine" where
  "new_engine p fs =
     \<lparr>features = fs, protocol = p, props = [], cache = Map.empty, historyServices = Map.empty\<rparr>"

subsection \<open>The read map and its history wrapper\<close>

text \<open>
  Lines 186 to 221. When the handle has a last entry, the wrapper changes that object in
  place and hands the same object back (the flag of \<open>addEntry\<close> is set); when it has none,
  the wrapper makes a new object.
\<close>

fun getMap :: "read_map \<Rightarrow> jsval \<Rightarrow> 'w engine \<Rightarrow> 'w rt \<Rightarrow> (js_error + jsval) \<times> 'w engine \<times> 'w rt" where
  "getMap (BaseMap f) it eng rt = (f it, eng, rt)"
| "getMap (HistoryMap oldMap historyType historyKey) it eng rt =
     (case oldMap it of
        Inl err \<Rightarrow> (Inl err, eng, rt)
      | Inr result \<Rightarrow>
          if \<not> truthy result then (Inr result, eng, rt)
          else
            (case historyServices eng historyType of
               None \<Rightarrow> (Inr result, eng, rt)
             | Some historyService \<Rightarrow>
                 let rt1 = emit (GetLastEntryCall historyType) rt;
                     lastEntry = getLastEntry historyService;
                     (t, rt2) = now_seconds rt1;
                     entry0 = (case lastEntry of
                                 None \<Rightarrow> [''time'' \<mapsto> JNum t]
                               | Some e \<Rightarrow> e(''time'' \<mapsto> JNum t));
                     entry = entry0(historyKey \<mapsto> parseInt_blank rt result);
                     rt3 = emit (AddEntryCall historyType entry) rt2
                 in (Inr result,
                     eng\<lparr>historyServices :=
                           (historyServices eng)
                             (historyType \<mapsto> addEntry historyService (lastEntry \<noteq> None) entry)\<rparr>,
                     rt3)))"

subsection \<open>\<^verbatim>\<open>update\<close>\<close>

fun push_values :: "jsval \<Rightarrow> get_value list \<Rightarrow> 'w engine \<Rightarrow> 'w rt \<Rightarrow> (js_error + unit) \<times> 'w engine \<times> 'w rt" where
  "push_values propValue [] eng rt = (Inr (), eng, rt)"
| "push_values propValue (v # vs) eng rt =
     (case getMap (gv_map v) propValue eng rt of
        (Inl err, eng1, rt1) \<Rightarrow> (Inl err, eng1, rt1)
      | (Inr charValue, eng1, rt1) \<Rightarrow>
          push_values propValue vs eng1 (emit (UpdateValue (gv_characteristic v) charValue) rt1))"

fun push_props :: "get_entry list \<Rightarrow> 'w engine \<Rightarrow> 'w rt \<Rightarrow> (js_error + unit) \<times> 'w engine \<times> 'w rt" where
  "push_props [] eng rt = (Inr (), eng, rt)"
| "push_props (p # ps) eng rt =
     (case push_values (js_get (cache eng) (ge_key p)) (ge_values p) eng rt of
        (Inl err, eng1, rt1) \<Rightarrow> (Inl err, eng1, rt1)
      | (Inr u, eng1, rt1) \<Rightarrow> push_props ps eng1 rt1)"

text \<open>The body of the \<^verbatim>\<open>try\<close> block, lines 114 to 127.\<close>

definition update_try :: "'w engine \<Rightarrow> 'w rt \<Rightarrow> (js_error + unit) \<times> 'w engine \<times> 'w rt" where
  "update_try eng rt =
     (let keys = map ge_key (props eng);
          rt0 = emit (GetPropsCall keys) rt
      in case p_getProps (protocol eng) keys (world rt0) of
           (Inl err, w) \<Rightarrow> (Inl err, eng, rt0\<lparr>world := w\<rparr>)
         | (Inr m, w) \<Rightarrow> push_props (props eng) (eng\<lparr>cache := m\<rparr>) (rt0\<lparr>world := w\<rparr>))"

text \<open>The whole method: the \<^verbatim>\<open>catch\<close> block reports the error and returns.\<close>

definition update :: "'w engine \<Rightarrow> 'w rt \<Rightarrow> (js_error + unit) \<times> 'w engine \<times> 'w rt" where
  "update eng rt =
     (case update_try eng rt of
        (Inl err, eng1, rt1) \<Rightarrow>
          (Inr (), eng1,
           (let rt2 = emit (LogError err) rt1
            in if is_ProtocolError err then emit LogWarn rt2 else rt2))
      | (Inr u, eng1, rt1) \<Rightarrow> (Inr (), eng1, rt1))"

subsection \<open>\<^verbatim>\<open>getProp\<close>\<close>

definition getProp :: "'w engine \<Rightarrow> string \<Rightarrow> read_map \<Rightarrow> 'w rt \<Rightarrow> (js_error + unit) \<times> 'w engine \<times> 'w rt" where
  "getProp eng key gm rt =
     (let v = (if truthy (js_get (cache eng) key) then js_get (cache eng) key else JNull)
      in case getMap gm v eng rt of
           (Inl err, eng1, rt1) \<Rightarrow> (Inl err, eng1, rt1)
         | (Inr charValue, eng1, rt1) \<Rightarrow> (Inr (), eng1, emit (GetCallback charValue) rt1))"

subsection \<open>\<^verbatim>\<open>setProp\<close>\<close>

definition run_beforeSet :: "'w set_entry \<Rightarrow> jsval \<Rightarrow> 'w rt \<Rightarrow> (js_error + jsval) \<times> 'w rt" where
  "run_beforeSet entry v rt =
     (case se_beforeSet entry of
        None \<Rightarrow> (Inr JUndefined, rt)
      | Some hook \<Rightarrow>
          (let rt1 = emit (BeforeSetCall v (se_characteristic entry)) rt
           in case hook (v, se_characteristic entry) (world rt1) of
                (r, w) \<Rightarrow> (r, rt1\<lparr>world := w\<rparr>)))"

definition run_setProp :: "'w engine \<Rightarrow> 'w set_entry \<Rightarrow> jsval \<Rightarrow> jsval \<Rightarrow> 'w rt \<Rightarrow> (js_error + unit) \<times> 'w rt" where
  "run_setProp eng entry skipSet mappedValue rt =
     (if skipSet \<noteq> JBool True
      then (let rt1 = emit (SetPropCall (se_key entry) (se_call entry) mappedValue) rt
            in case p_setProp (protocol eng) (se_key entry) (se_call entry) mappedValue (world rt1) of
                 (r, w) \<Rightarrow> (r, rt1\<lparr>world := w\<rparr>))
      else (Inr (), rt))"

definition run_afterSet :: "'w set_entry \<Rightarrow> jsval \<Rightarrow> jsval \<Rightarrow> 'w rt \<Rightarrow> (js_error + unit) \<times> 'w rt" where
  "run_afterSet entry v mappedValue rt =
     (case se_afterSet entry of
        None \<Rightarrow> (Inr (), rt)
      | Some hook \<Rightarrow>
          (let rt1 = emit (AfterSetCall v mappedValue (se_characteristic entry)) rt
           in case hook (v, mappedValue, se_characteristic entry) (world rt1) of
                (r, w) \<Rightarrow> (r, rt1\<lparr>world := w\<rparr>)))"

text \<open>The body of the \<^verbatim>\<open>try\<close> block, lines 313 to 338.\<close>

definition setProp_try :: "'w engine \<Rightarrow> 'w set_entry \<Rightarrow> jsval \<Rightarrow> 'w rt \<Rightarrow> (js_error + unit) \<times> 'w rt" where
  "setProp_try eng entry v rt =
     (case run_beforeSet entry v rt of
        (Inl err, rt1) \<Rightarrow> (Inl err, rt1)
      | (Inr skipSet, rt1) \<Rightarrow>
          (case se_map entry v of
             Inl err \<Rightarrow> (Inl err, rt1)
           | Inr mappedValue \<Rightarrow>
               (case run_setProp eng entry skipSet mappedValue rt1 of
                  (Inl err, rt2) \<Rightarrow> (Inl err, rt2)
                | (Inr u, rt2) \<Rightarrow>
                    (case run_afterSet entry v mappedValue rt2 of
                       (Inl err, rt3) \<Rightarrow> (Inl err, rt3)
                     | (Inr u', rt3) \<Rightarrow> (Inr (), emit (SetCallback None) rt3)))))"

text \<open>The whole method: the \<^verbatim>\<open>catch\<close> block reports the error and acknowledges with it.\<close>

definition setProp :: "'w engine \<Rightarrow> 'w set_entry \<Rightarrow> jsval \<Rightarrow> 'w rt \<Rightarrow> (js_error + unit) \<times> 'w engine \<times> 'w rt" where
  "setProp eng entry v rt =
     (case setProp_try eng entry v rt of
        (Inl err, rt1) \<Rightarrow> (Inr (), eng, emit (SetCallback (Some err)) (emit (LogError err) rt1))
      | (Inr u, rt1) \<Rightarrow> (Inr (), eng, rt1))"

section \<open>Registration\<close>

subsection \<open>The accessory tree of the host\<close>

text \<open>
  The engine works on \<^verbatim>\<open>accessory.services\<close>, an array of service objects, each with its
  array of characteristics (here their UUIDs). The operations below are those of the
  host library (HAP-NodeJS behind the \<^verbatim>\<open>PlatformAccessory\<close> of homebridge), which is not
  code of this repository: \<^verbatim>\<open>getService\<close> finds the first service by display name or
  subtype, or by the UUID of a class; \<^verbatim>\<open>addService\<close> makes a service with the
  characteristics of its class (and \<^verbatim>\<open>Name\<close> when it is given a display name) and refuses a
  clash of UUID and subtype; \<^verbatim>\<open>getCharacteristic\<close> finds a characteristic or adds it;
  \<^verbatim>\<open>removeService\<close> and \<^verbatim>\<open>removeCharacteristic\<close> splice the object out of its array.
\<close>

record service =
  s_UUID :: string
  s_subtype :: "string option"
  s_displayName :: string
  s_characteristics :: "string list"

type_synonym accessory = "service list"

definition getServiceId :: "service \<Rightarrow> string" where
  "getServiceId s = s_UUID s @ (case s_subtype s of None \<Rightarrow> [] | Some t \<Rightarrow> t)"

definition Name_UUID :: string where
  "Name_UUID = ''00000023-0000-1000-8000-0026BB765291''"

definition new_service :: "service_class \<Rightarrow> string \<Rightarrow> string option \<Rightarrow> service" where
  "new_service cls displayName subtype =
     \<lparr>s_UUID = sc_UUID cls, s_subtype = subtype, s_displayName = displayName,
      s_characteristics = (if displayName \<noteq> [] then [Name_UUID] else []) @ sc_required cls\<rparr>"

fun index_where :: "('a \<Rightarrow> bool) \<Rightarrow> 'a list \<Rightarrow> nat option" where
  "index_where P [] = None"
| "index_where P (x # xs) = (if P x then Some 0 else map_option Suc (index_where P xs))"

definition getService_name :: "accessory \<Rightarrow> string \<Rightarrow> nat option" where
  "getService_name acc n = index_where (\<lambda>s. s_displayName s = n \<or> s_subtype s = Some n) acc"

definition getService_class :: "accessory \<Rightarrow> service_class \<Rightarrow> nat option" where
  "getService_class acc cls = index_where (\<lambda>s. s_UUID s = sc_UUID cls) acc"

definition addService :: "accessory \<Rightarrow> service_class \<Rightarrow> string \<Rightarrow> string option \<Rightarrow> js_error + nat \<times> accessory" where
  "addService acc cls displayName subtype =
     (let s = new_service cls displayName subtype
      in if list_ex (\<lambda>existing. s_UUID existing = s_UUID s \<and>
                      (subtype = None \<or> subtype = Some [] \<or> s_subtype existing = subtype)) acc
         then Inl (JsError False ''Error'' ''Cannot add a Service with the same UUID and subtype'')
         else Inr (length acc, acc @ [s]))"

definition getCharacteristic :: "service \<Rightarrow> string \<Rightarrow> service" where
  "getCharacteristic s uuid =
     (if uuid \<in> set (s_characteristics s) then s
      else s\<lparr>s_characteristics := s_characteristics s @ [uuid]\<rparr>)"

text \<open>\<^verbatim>\<open>array.splice(k, 1)\<close>.\<close>

definition splice_out :: "nat \<Rightarrow> 'a list \<Rightarrow> 'a list" where
  "splice_out k xs = take k xs @ drop (Suc k) xs"

subsection \<open>\<^verbatim>\<open>register\<close>\<close>

text \<open>Lines 149 to 161: the service of a binding, found or made; its index in the array.\<close>

definition obtain_service :: "'w feature \<Rightarrow> accessory \<Rightarrow> js_error + nat \<times> accessory" where
  "obtain_service config acc =
     (case f_name config of
        Some (displayName, subtype) \<Rightarrow>
          (case getService_name acc displayName of
             Some i \<Rightarrow> Inr (i, acc)
           | None \<Rightarrow> addService acc (f_service config) displayName (Some subtype))
      | None \<Rightarrow>
          (case getService_class acc (f_service config) of
             Some i \<Rightarrow> Inr (i, acc)
           | None \<Rightarrow> addService acc (f_service config) [] None))"

text \<open>Lines 223 to 242: the property index takes one more characteristic.\<close>

definition add_binding :: "string \<Rightarrow> get_value \<Rightarrow> get_entry list \<Rightarrow> get_entry list" where
  "add_binding k b ps =
     (case index_where (\<lambda>prop. ge_key prop = k) ps of
        Some j \<Rightarrow> ps[j := (ps ! j)\<lparr>ge_values := ge_values (ps ! j) @ [b]\<rparr>]
      | None \<Rightarrow> ps @ [\<lparr>ge_key = k, ge_values = [b]\<rparr>])"

definition register :: "'w feature \<Rightarrow> 'w engine \<Rightarrow> accessory \<Rightarrow> 'w rt \<Rightarrow> (js_error + unit) \<times> 'w engine \<times> accessory \<times> 'w rt" where
  "register config eng acc rt =
     (case obtain_service config acc of
        Inl err \<Rightarrow> (Inl err, eng, acc, rt)
      | Inr (i, acc1) \<Rightarrow>
          (let acc2 = acc1[i := getCharacteristic (acc1 ! i) (f_characteristic config)];
               characteristic = (getServiceId (acc2 ! i), f_characteristic config);
               rt1 = (case f_props config of
                        None \<Rightarrow> rt
                      | Some ps \<Rightarrow> emit (SetProps characteristic ps) rt)
           in case f_variant config of
                Static (ValueCallback cb) \<Rightarrow> (Inr (), eng, acc2, emit (OnGetValue characteristic cb) rt1)
              | Static (ValueConst v) \<Rightarrow> (Inr (), eng, acc2, emit (SetValue characteristic v) rt1)
              | Dynamic k get_map set_cfg \<Rightarrow>
                  (let baseMap = (case get_map of Some f \<Rightarrow> f | None \<Rightarrow> Inr);
                       gm = (case (f_historyKey config, f_historyType config) of
                               (Some historyKey, Some historyType) \<Rightarrow> HistoryMap baseMap historyType historyKey
                             | _ \<Rightarrow> BaseMap baseMap);
                       eng1 = eng\<lparr>props := add_binding k
                                 \<lparr>gv_characteristic = characteristic, gv_map = gm\<rparr> (props eng)\<rparr>;
                       rt2 = emit (OnGet characteristic k gm) rt1;
                       rt3 = (case set_cfg of
                                None \<Rightarrow> rt2
                              | Some sc \<Rightarrow>
                                  emit (OnSet characteristic
                                         \<lparr>se_key = k, se_characteristic = characteristic,
                                          se_call = set_call sc,
                                          se_map = (case set_map sc of Some f \<Rightarrow> f | None \<Rightarrow> Inr),
                                          se_beforeSet = set_beforeSet sc,
                                          se_afterSet = set_afterSet sc\<rparr>) rt2)
                   in (Inr (), eng1, acc2, rt3))))"

subsection \<open>\<^verbatim>\<open>configureAccessory\<close>\<close>

text \<open>\<^verbatim>\<open>this.features.forEach(register)\<close>: a throw ends the loop and the method.\<close>

fun register_all :: "'w feature list \<Rightarrow> 'w engine \<Rightarrow> accessory \<Rightarrow> 'w rt \<Rightarrow> (js_error + unit) \<times> 'w engine \<times> accessory \<times> 'w rt" where
  "register_all [] eng acc rt = (Inr (), eng, acc, rt)"
| "register_all (f # fs) eng acc rt =
     (case register f eng acc rt of
        (Inl err, eng1, acc1, rt1) \<Rightarrow> (Inl err, eng1, acc1, rt1)
      | (Inr u, eng1, acc1, rt1) \<Rightarrow> register_all fs eng1 acc1 rt1)"

definition feature_serviceId :: "'w feature \<Rightarrow> string" where
  "feature_serviceId f =
     sc_UUID (f_service f) @ (case f_name f of None \<Rightarrow> [] | Some (displayName, subtype) \<Rightarrow> subtype)"

text \<open>
  Lines 78 to 83: \<^verbatim>\<open>forEach\<close> walks the live array by index, and
  \<^verbatim>\<open>removeCharacteristic\<close> splices that array: after a removal the next element has
  moved under the index just visited. \<^verbatim>\<open>forEach\<close> stops at the length the array had at
  the start and skips indices that are gone; the array only shrinks here, so the test on
  the current length is both.
\<close>

function cleanup_characteristics :: "string list \<Rightarrow> nat \<Rightarrow> string list \<Rightarrow> string list" where
  "cleanup_characteristics enabledCharacteristics k cs =
     (if k < length cs
      then (if cs ! k \<in> set enabledCharacteristics
            then cleanup_characteristics enabledCharacteristics (Suc k) cs
            else cleanup_characteristics enabledCharacteristics (Suc k) (splice_out k cs))
      else cs)"
  by pat_completeness auto
termination
  by (relation "measure (\<lambda>(en, k, cs). length cs - k)") (auto simp: splice_out_def)

text \<open>
  Lines 62 to 84, the same walk over \<^verbatim>\<open>accessory.services\<close>. A service that is removed
  has its characteristics cleaned as well, out of the tree.
\<close>

function cleanup_services :: "'w feature list \<Rightarrow> nat \<Rightarrow> accessory \<Rightarrow> accessory" where
  "cleanup_services fs k acc =
     (if k < length acc
      then (let s = acc ! k;
                enabledCharacteristics =
                  map f_characteristic (filter (\<lambda>it. feature_serviceId it = getServiceId s) fs);
                s' = s\<lparr>s_characteristics :=
                         cleanup_characteristics enabledCharacteristics 0 (s_characteristics s)\<rparr>
            in if getServiceId s \<in> set (map feature_serviceId fs)
               then cleanup_services fs (Suc k) (acc[k := s'])
               else cleanup_services fs (Suc k) (splice_out k acc))
      else acc)"
  by pat_completeness auto
termination
  by (relation "measure (\<lambda>(fs, k, acc). length acc - k)") (auto simp: splice_out_def)

text \<open>
  Lines 49 to 103. The history handles are made last, one for each \<^verbatim>\<open>historyType\<close> of the
  table.
\<close>

definition configureAccessory :: "'w engine \<Rightarrow> accessory \<Rightarrow> 'w rt \<Rightarrow> (js_error + unit) \<times> 'w engine \<times> accessory \<times> 'w rt" where
  "configureAccessory eng acc rt =
     (case register_all (features eng) eng acc rt of
        (Inl err, eng1, acc1, rt1) \<Rightarrow> (Inl err, eng1, acc1, rt1)
      | (Inr u, eng1, acc1, rt1) \<Rightarrow>
          (let acc2 = cleanup_services (features eng1) 0 acc1;
               historyTypes = List.map_filter f_historyType (features eng1)
           in (Inr (),
               eng1\<lparr>historyServices :=
                      foldl (\<lambda>hs t. hs(t \<mapsto> EveHistoryService_new)) (historyServices eng1) historyTypes\<rparr>,
               acc2, rt1)))"

section \<open>Notions used to state the properties\<close>

text \<open>The device calls among the events.\<close>

fun is_device_call :: "'w event \<Rightarrow> bool" where
  "is_device_call (GetPropsCall ks) = True"
| "is_device_call (SetPropCall k c v) = True"
| "is_device_call _ = False"

text \<open>The values pushed to characteristics (\<^verbatim>\<open>updateValue\<close>), in order.\<close>

fun pushes :: "'w event list \<Rightarrow> (char_ref \<times> jsval) list" where
  "pushes [] = []"
| "pushes (UpdateValue c v # es) = (c, v) # pushes es"
| "pushes (e # es) = pushes es"

text \<open>The events of a run that starts in \<open>rt\<close> and ends in \<open>rt'\<close>.\<close>

definition new_events :: "'w rt \<Rightarrow> 'w rt \<Rightarrow> 'w event list" where
  "new_events rt rt' = drop (length (events rt)) (events rt')"

text \<open>The read transform of a binding: the map under the history wrapper, if there is one.\<close>

fun read_transform :: "read_map \<Rightarrow> transform" where
  "read_transform (BaseMap f) = f"
| "read_transform (HistoryMap f historyType historyKey) = f"

text \<open>
  The bindings of a property index in the order \<^verbatim>\<open>update\<close> visits them, each with the
  value its key has in the object \<open>m\<close>.
\<close>

definition bindings_of :: "js_object \<Rightarrow> get_entry list \<Rightarrow> (jsval \<times> get_value) list" where
  "bindings_of m ps = concat (map (\<lambda>p. map (\<lambda>b. (js_get m (ge_key p), b)) (ge_values p)) ps)"

text \<open>The device key of a binding that has neither a static value nor a get-callback.\<close>

definition feature_key :: "'w feature \<Rightarrow> string option" where
  "feature_key f = (case f_variant f of Static v \<Rightarrow> None | Dynamic k g s \<Rightarrow> Some k)"

text \<open>The keys asked of the device in a list of events.\<close>

fun polled_keys :: "'w event list \<Rightarrow> string list list" where
  "polled_keys [] = []"
| "polled_keys (GetPropsCall ks # es) = ks # polled_keys es"
| "polled_keys (e # es) = polled_keys es"

text \<open>Whether a read map records into the history channel \<open>ch\<close>.\<close>

fun writes_channel :: "string \<Rightarrow> read_map \<Rightarrow> bool" where
  "writes_channel ch (BaseMap f) = False"
| "writes_channel ch (HistoryMap f historyType historyKey) = (historyType = ch)"

text \<open>A field of the open entry of a history channel, if the channel has one.\<close>

definition history_field :: "'w engine \<Rightarrow> string \<Rightarrow> string \<Rightarrow> jsval option" where
  "history_field eng ch k =
     (case historyServices eng ch of
        None \<Rightarrow> None
      | Some historyService \<Rightarrow>
          (case getLastEntry historyService of None \<Rightarrow> None | Some e \<Rightarrow> e k))"

text \<open>The entries a history channel holds, oldest first; none for a channel with no handle.\<close>

definition history_entries :: "'w engine \<Rightarrow> string \<Rightarrow> history_entry list" where
  "history_entries eng ch = (case historyServices eng ch of None \<Rightarrow> [] | Some hs \<Rightarrow> hs)"

text \<open>Whether a read map is wrapped for the channel \<open>ch\<close> with one of the fields \<open>fs\<close>.\<close>

fun records_under :: "string \<Rightarrow> string list \<Rightarrow> read_map \<Rightarrow> bool" where
  "records_under ch fs (BaseMap f) = False"
| "records_under ch fs (HistoryMap f historyType historyKey) = (historyType = ch \<and> historyKey \<in> set fs)"

text \<open>
  Whether the evaluation of a binding on a value makes a recording, and so reads the clock:
  the binding is wrapped, its result is truthy and its channel has a handle.
\<close>

fun recording :: "'w engine \<Rightarrow> jsval \<times> get_value \<Rightarrow> bool" where
  "recording eng (v, b) =
     (case gv_map b of
        BaseMap f \<Rightarrow> False
      | HistoryMap f historyType historyKey \<Rightarrow>
          (case f v of
             Inl err \<Rightarrow> False
           | Inr result \<Rightarrow> truthy result \<and> historyServices eng historyType \<noteq> None))"

text \<open>Every binding of the index that is wrapped for a channel finds a handle of that channel.\<close>

definition handles_ready :: "'w engine \<Rightarrow> bool" where
  "handles_ready eng =
     (\<forall>p \<in> set (props eng). \<forall>b \<in> set (ge_values p). \<forall>f historyType historyKey.
        gv_map b = HistoryMap f historyType historyKey \<longrightarrow> historyServices eng historyType \<noteq> None)"

text \<open>
  The engines in use: a new engine that has configured an accessory, and what polls, reads
  and writes make of it.
\<close>

inductive configured :: "'w engine \<Rightarrow> bool" where
  configured_new:
    "configureAccessory (new_engine p fs) acc rt = (Inr (), eng, acc', rt') \<Longrightarrow> configured eng"
| configured_update:
    "configured eng \<Longrightarrow> update eng rt = (r, eng', rt') \<Longrightarrow> configured eng'"
| configured_getProp:
    "configured eng \<Longrightarrow> getProp eng key gm rt = (r, eng', rt') \<Longrightarrow> configured eng'"
| configured_setProp:
    "configured eng \<Longrightarrow> setProp eng entry v rt = (r, eng', rt') \<Longrightarrow> configured eng'"

text \<open>
  The two loops of \<^verbatim>\<open>update\<close> as one walk over the bindings, each with the value of its
  key; \<open>push_props_flat\<close> below shows that it is the same walk.
\<close>

fun push_bindings :: "(jsval \<times> get_value) list \<Rightarrow> 'w engine \<Rightarrow> 'w rt \<Rightarrow> (js_error + unit) \<times> 'w engine \<times> 'w rt" where
  "push_bindings [] eng rt = (Inr (), eng, rt)"
| "push_bindings ((propValue, v) # xs) eng rt =
     (case getMap (gv_map v) propValue eng rt of
        (Inl err, eng1, rt1) \<Rightarrow> (Inl err, eng1, rt1)
      | (Inr charValue, eng1, rt1) \<Rightarrow>
          push_bindings xs eng1 (emit (UpdateValue (gv_characteristic v) charValue) rt1))"

section \<open>A device and feature tables for the examples\<close>

text \<open>
  The world of the examples is one flag: whether the device answers. The device reports a
  humidity of 47, a temperature of 21 and a led brightness of 0.
\<close>

definition ex_error :: js_error where
  "ex_error = JsError True ''ProtocolError'' ''invalid token''"

definition ex_device :: js_object where
  "ex_device = [''humidity'' \<mapsto> JNum 47, ''temp_dec'' \<mapsto> JNum 21, ''led_b'' \<mapsto> JNum 0]"

definition ex_protocol :: "bool protocol" where
  "ex_protocol =
     \<lparr>p_getProps = (\<lambda>ks up. (if up then Inr ex_device else Inl ex_error, up)),
      p_setProp = (\<lambda>k c v up. (if up then Inr () else Inl ex_error, up))\<rparr>"

text \<open>
  What the built-in \<^verbatim>\<open>parseInt(" " + x.valueOf())\<close> gives on the values that reach it in
  the examples: an integer of at most fifteen digits prints in plain decimal and is read back
  as itself, and \<^verbatim>\<open>true\<close> prints as a word with no digit. The examples pass it nothing
  else (no string, no larger number; a falsy value never reaches line 207), and the other
  values are left open.
\<close>

definition ex_parseInt :: "jsval \<Rightarrow> jsval" where
  "ex_parseInt x =
     (case x of
        JNum n \<Rightarrow> if \<bar>n\<bar> < 10 ^ 15 then JNum n else undefined
      | JBool b \<Rightarrow> if b then JNaN else undefined
      | _ \<Rightarrow> undefined)"

definition ex_rt :: "bool \<Rightarrow> bool rt" where
  "ex_rt up =
     \<lparr>world = up, clock = (\<lambda>n. 1000 * int n + 60000), clock_reads = 0,
      parseInt_blank = ex_parseInt, events = []\<rparr>"

text \<open>A named service with one characteristic, fed from one device key.\<close>

definition sensor_feature :: "string \<Rightarrow> string \<Rightarrow> string \<Rightarrow> string \<Rightarrow> bool feature" where
  "sensor_feature svc nm chr k =
     \<lparr>f_service = \<lparr>sc_UUID = svc, sc_required = [chr]\<rparr>, f_name = Some (nm, nm),
      f_characteristic = chr, f_props = None, f_variant = Dynamic k None None,
      f_historyKey = None, f_historyType = None\<rparr>"

definition humidifier_feature :: "bool feature" where
  "humidifier_feature =
     \<lparr>f_service = \<lparr>sc_UUID = ''HumidifierDehumidifier'', sc_required = [''Active'']\<rparr>,
      f_name = None, f_characteristic = ''Active'', f_props = None,
      f_variant = Dynamic ''power'' None None, f_historyKey = None, f_historyType = None\<rparr>"

definition model_feature :: "bool feature" where
  "model_feature =
     \<lparr>f_service = \<lparr>sc_UUID = ''HumidifierDehumidifier'', sc_required = [''Active'']\<rparr>,
      f_name = None, f_characteristic = ''Model'', f_props = None,
      f_variant = Static (ValueConst (JStr ''zhimi.humidifier.v1'')),
      f_historyKey = None, f_historyType = None\<rparr>"

definition temperature_feature :: "bool feature" where
  "temperature_feature =
     sensor_feature ''TemperatureSensor'' ''Temperature'' ''CurrentTemperature'' ''temp_dec''"

definition humidity_feature :: "bool feature" where
  "humidity_feature =
     sensor_feature ''HumiditySensor'' ''Humidity'' ''CurrentRelativeHumidity'' ''humidity''"

definition led_feature :: "bool feature" where
  "led_feature = sensor_feature ''Lightbulb'' ''Led'' ''On'' ''led_b''"

text \<open>The two readings that go to the history channel \<open>room\<close>.\<close>

definition humidity_reading :: "bool feature" where
  "humidity_reading =
     \<lparr>f_service = \<lparr>sc_UUID = ''HumidifierDehumidifier'', sc_required = [''Active'']\<rparr>,
      f_name = None, f_characteristic = ''CurrentRelativeHumidity'', f_props = None,
      f_variant = Dynamic ''humidity'' None None,
      f_historyKey = Some ''humidity'', f_historyType = Some ''room''\<rparr>"

definition temperature_reading :: "bool feature" where
  "temperature_reading =
     temperature_feature\<lparr>f_historyKey := Some ''temp'', f_historyType := Some ''room''\<rparr>"

definition ex_table :: "bool feature list" where
  "ex_table = [model_feature, humidity_reading, humidity_feature, temperature_reading, led_feature]"

text \<open>The engine of that table once the accessory is configured, before the first poll.\<close>

definition ex_props :: "get_entry list" where
  "ex_props =
     [\<lparr>ge_key = ''humidity'',
       ge_values =
         [\<lparr>gv_characteristic = (''HumidifierDehumidifier'', ''CurrentRelativeHumidity''),
           gv_map = HistoryMap Inr ''room'' ''humidity''\<rparr>,
          \<lparr>gv_characteristic = (''HumiditySensorHumidity'', ''CurrentRelativeHumidity''),
           gv_map = BaseMap Inr\<rparr>]\<rparr>,
      \<lparr>ge_key = ''temp_dec'',
       ge_values =
         [\<lparr>gv_characteristic = (''TemperatureSensorTemperature'', ''CurrentTemperature''),
           gv_map = HistoryMap Inr ''room'' ''temp''\<rparr>]\<rparr>,
      \<lparr>ge_key = ''led_b'',
       ge_values = [\<lparr>gv_characteristic = (''LightbulbLed'', ''On''), gv_map = BaseMap Inr\<rparr>]\<rparr>]"

definition ex_engine :: "bool engine" where
  "ex_engine =
     \<lparr>features = ex_table, protocol = ex_protocol, props = ex_props, cache = Map.empty,
      historyServices = [''room'' \<mapsto> EveHistoryService_new]\<rparr>"

text \<open>The engine a table gives: a new engine that has configured a new accessory.\<close>

definition configured_engine :: "bool feature list \<Rightarrow> bool engine" where
  "configured_engine fs =
     (case configureAccessory (new_engine ex_protocol fs) [] (ex_rt True) of
        (r, eng, acc, rt) \<Rightarrow> eng)"

text \<open>A table whose second history binding has the field \<^verbatim>\<open>time\<close>.\<close>

definition time_field_table :: "bool feature list" where
  "time_field_table =
     [humidity_reading, temperature_reading\<lparr>f_historyKey := Some ''time''\<rparr>]"

text \<open>
  A table with a third history binding, fed from the humidity, that has the field of the
  temperature binding and is visited last.
\<close>

definition shared_field_table :: "bool feature list" where
  "shared_field_table =
     [temperature_reading, humidity_reading,
      humidity_feature\<lparr>f_historyKey := Some ''temp'', f_historyType := Some ''room''\<rparr>]"

text \<open>The same table with the field \<^verbatim>\<open>time\<close> for the third history binding.\<close>

definition late_time_table :: "bool feature list" where
  "late_time_table =
     [temperature_reading, humidity_reading,
      humidity_feature\<lparr>f_historyKey := Some ''time'', f_historyType := Some ''room''\<rparr>]"

text \<open>The write path of the led, and hooks for it.\<close>

definition ex_entry :: "bool set_entry" where
  "ex_entry =
     \<lparr>se_key = ''led_b'', se_characteristic = (''LightbulbLed'', ''On''), se_call = ''set_led_b'',
      se_map = (\<lambda>v. Inr (if truthy v then JNum 1 else JNum 0)),
      se_beforeSet = None, se_afterSet = None\<rparr>"

definition skipping_hook :: "bool beforeSet_func" where
  "skipping_hook = (\<lambda>a up. (Inr (JBool True), up))"

definition failing_hook :: "bool beforeSet_func" where
  "failing_hook = (\<lambda>a up. (Inl ex_error, up))"

definition quiet_after :: "bool afterSet_func" where
  "quiet_after = (\<lambda>a up. (Inr (), up))"

definition failing_after :: "bool afterSet_func" where
  "failing_after = (\<lambda>a up. (Inl ex_error, up))"

text \<open>
  The tree a new engine with the table \<open>fs\<close> leaves when it configures the accessory
  \<open>acc\<close> (a restart of the host with a changed configuration).
\<close>

definition reconfigured :: "bool feature list \<Rightarrow> accessory \<Rightarrow> accessory" where
  "reconfigured fs acc =
     (case configureAccessory (new_engine ex_protocol fs) acc (ex_rt True) of
        (r, eng, acc', rt) \<Rightarrow> acc')"

section \<open>Lemmas on events and on one evaluation of a read map\<close>

lemma pushes_append: "pushes (xs @ ys) = pushes xs @ pushes ys"
  by (induction xs rule: pushes.induct) auto

lemma polled_keys_append: "polled_keys (xs @ ys) = polled_keys xs @ polled_keys ys"
  by (induction xs rule: polled_keys.induct) auto

lemma new_events_append: "events rt' = events rt @ new \<Longrightarrow> new_events rt rt' = new"
  by (simp add: new_events_def)

lemma getMap_value:
  assumes "getMap gm it eng rt = (r, eng1, rt1)"
  shows "r = read_transform gm it"
  using assms
  by (cases gm) (auto simp: Let_def split: sum.splits if_splits option.splits prod.splits)

lemma getMap_frame:
  assumes "getMap gm it eng rt = (r, eng1, rt1)"
  shows "cache eng1 = cache eng" and "props eng1 = props eng"
    and "protocol eng1 = protocol eng" and "features eng1 = features eng"
    and "world rt1 = world rt" and "clock rt1 = clock rt"
  using assms
  by (cases gm; auto simp: emit_def now_seconds_def Let_def
        split: sum.splits if_splits option.splits prod.splits)+

lemma getMap_events:
  assumes "getMap gm it eng rt = (r, eng1, rt1)"
  shows "\<exists>new. events rt1 = events rt @ new \<and> pushes new = [] \<and> filter is_device_call new = []
            \<and> polled_keys new = []"
  using assms
  by (cases gm) (auto simp: emit_def now_seconds_def Let_def
        split: sum.splits if_splits option.splits prod.splits)

lemma getMap_clock_reads:
  assumes "getMap gm it eng rt = (r, eng1, rt1)"
  shows "clock_reads rt \<le> clock_reads rt1"
  using assms
  by (cases gm) (auto simp: emit_def now_seconds_def Let_def
        split: sum.splits if_splits option.splits prod.splits)

lemma getMap_history_frame:
  assumes "getMap gm it eng rt = (r, eng1, rt1)"
  shows "historyServices eng ch \<noteq> None \<Longrightarrow> historyServices eng1 ch \<noteq> None"
    and "\<not> writes_channel ch gm \<Longrightarrow> historyServices eng1 ch = historyServices eng ch"
  using assms
  by (cases gm; auto simp: emit_def now_seconds_def Let_def
        split: sum.splits if_splits option.splits prod.splits)+

text \<open>A recording: the wrapper on a truthy result, for a channel that has a handle.\<close>

lemma getMap_records:
  assumes "t v = Inr res" and "truthy res" and "historyServices eng ch = Some hs"
  shows "getMap (HistoryMap t ch f) v eng rt =
           (Inr res,
            eng\<lparr>historyServices := (historyServices eng)(ch \<mapsto> butlast hs @
                   [(case getLastEntry hs of None \<Rightarrow> Map.empty | Some e0 \<Rightarrow> e0)
                      (''time'' \<mapsto> JNum ((clock rt (clock_reads rt) + 500) div 1000),
                       f \<mapsto> parseInt_blank rt res)])\<rparr>,
            rt\<lparr>clock_reads := Suc (clock_reads rt),
               events := events rt @
                 [GetLastEntryCall ch,
                  AddEntryCall ch
                   ((case getLastEntry hs of None \<Rightarrow> Map.empty | Some e0 \<Rightarrow> e0)
                      (''time'' \<mapsto> JNum ((clock rt (clock_reads rt) + 500) div 1000),
                       f \<mapsto> parseInt_blank rt res))]\<rparr>)"
  using assms
  by (cases "hs = []") (simp_all add: emit_def now_seconds_def Let_def getLastEntry_def addEntry_def)

section \<open>The poll cycle\<close>

lemma push_values_frame:
  assumes "push_values pv vs eng rt = (r, eng1, rt1)"
  shows "cache eng1 = cache eng \<and> props eng1 = props eng \<and> protocol eng1 = protocol eng
           \<and> features eng1 = features eng \<and> world rt1 = world rt \<and> clock rt1 = clock rt"
  using assms
proof (induction vs arbitrary: eng rt)
  case Nil
  then show ?case by simp
next
  case (Cons v vs)
  obtain r0 e0 t0 where g: "getMap (gv_map v) pv eng rt = (r0, e0, t0)"
    by (metis prod_cases3)
  note fr = getMap_frame[OF g]
  show ?case
  proof (cases r0)
    case (Inl err)
    with Cons.prems g fr show ?thesis by simp
  next
    case (Inr cv)
    with Cons.prems g
    have "push_values pv vs e0 (emit (UpdateValue (gv_characteristic v) cv) t0) = (r, eng1, rt1)"
      by simp
    from Cons.IH[OF this] fr show ?thesis by (simp add: emit_def)
  qed
qed

lemma push_values_events:
  assumes "push_values pv vs eng rt = (r, eng1, rt1)"
  shows "\<exists>new. events rt1 = events rt @ new \<and> polled_keys new = [] \<and> filter is_device_call new = [] \<and>
           (list_all (\<lambda>b. \<not> isl (read_transform (gv_map b) pv)) vs \<longrightarrow>
              r = Inr () \<and>
              pushes new = map (\<lambda>b. (gv_characteristic b, projr (read_transform (gv_map b) pv))) vs)"
  using assms
proof (induction vs arbitrary: eng rt)
  case Nil
  then show ?case by simp
next
  case (Cons v vs)
  obtain r0 e0 t0 where g: "getMap (gv_map v) pv eng rt = (r0, e0, t0)"
    by (metis prod_cases3)
  from getMap_events[OF g] obtain n0 where n0: "events t0 = events rt @ n0" "pushes n0 = []"
      "filter is_device_call n0 = []" "polled_keys n0 = []" by blast
  have r0: "r0 = read_transform (gv_map v) pv" using getMap_value[OF g] .
  show ?case
  proof (cases r0)
    case (Inl err)
    with Cons.prems g have "rt1 = t0" by simp
    with n0 Inl r0 show ?thesis by auto
  next
    case (Inr cv)
    let ?t = "emit (UpdateValue (gv_characteristic v) cv) t0"
    from Inr Cons.prems g have "push_values pv vs e0 ?t = (r, eng1, rt1)" by simp
    from Cons.IH[OF this] obtain n1 where n1: "events rt1 = events ?t @ n1" "polled_keys n1 = []"
      "filter is_device_call n1 = []"
      "list_all (\<lambda>b. \<not> isl (read_transform (gv_map b) pv)) vs \<longrightarrow>
         r = Inr () \<and> pushes n1 = map (\<lambda>b. (gv_characteristic b, projr (read_transform (gv_map b) pv))) vs"
      by blast
    have "events rt1 = events rt @ (n0 @ UpdateValue (gv_characteristic v) cv # n1)"
      using n0 n1 by (simp add: emit_def)
    moreover have "polled_keys (n0 @ UpdateValue (gv_characteristic v) cv # n1) = []"
      using n0 n1 by (simp add: polled_keys_append)
    moreover have "filter is_device_call (n0 @ UpdateValue (gv_characteristic v) cv # n1) = []"
      using n0 n1 by simp
    moreover have "list_all (\<lambda>b. \<not> isl (read_transform (gv_map b) pv)) (v # vs) \<longrightarrow>
        r = Inr () \<and> pushes (n0 @ UpdateValue (gv_characteristic v) cv # n1) =
           map (\<lambda>b. (gv_characteristic b, projr (read_transform (gv_map b) pv))) (v # vs)"
    proof -
      have "read_transform (gv_map v) pv = Inr cv" using r0 Inr by simp
      with n0 n1 show ?thesis by (simp add: pushes_append)
    qed
    ultimately show ?thesis by blast
  qed
qed

lemma bindings_of_Nil: "bindings_of m [] = []"
  by (simp add: bindings_of_def)

lemma bindings_of_Cons:
  "bindings_of m (p # ps) = map (\<lambda>b. (js_get m (ge_key p), b)) (ge_values p) @ bindings_of m ps"
  by (simp add: bindings_of_def)

lemma push_props_frame:
  assumes "push_props ps eng rt = (r, eng1, rt1)"
  shows "cache eng1 = cache eng \<and> props eng1 = props eng \<and> protocol eng1 = protocol eng
           \<and> features eng1 = features eng \<and> world rt1 = world rt \<and> clock rt1 = clock rt"
  using assms
proof (induction ps arbitrary: eng rt)
  case Nil
  then show ?case by simp
next
  case (Cons p ps)
  obtain r0 e0 t0 where g: "push_values (js_get (cache eng) (ge_key p)) (ge_values p) eng rt = (r0, e0, t0)"
    by (metis prod_cases3)
  note fr = push_values_frame[OF g]
  show ?case
  proof (cases r0)
    case (Inl err)
    with Cons.prems g fr show ?thesis by simp
  next
    case (Inr u)
    with Cons.prems g have "push_props ps e0 t0 = (r, eng1, rt1)" by simp
    from Cons.IH[OF this] fr show ?thesis by simp
  qed
qed

lemma push_props_events:
  assumes "push_props ps eng rt = (r, eng1, rt1)"
  shows "\<exists>new. events rt1 = events rt @ new \<and> polled_keys new = [] \<and> filter is_device_call new = [] \<and>
           (list_all (\<lambda>(v, b). \<not> isl (read_transform (gv_map b) v)) (bindings_of (cache eng) ps) \<longrightarrow>
              r = Inr () \<and>
              pushes new = map (\<lambda>(v, b). (gv_characteristic b, projr (read_transform (gv_map b) v)))
                             (bindings_of (cache eng) ps))"
  using assms
proof (induction ps arbitrary: eng rt)
  case Nil
  then show ?case by (simp add: bindings_of_Nil)
next
  case (Cons p ps)
  let ?pv = "js_get (cache eng) (ge_key p)"
  obtain r0 e0 t0 where g: "push_values ?pv (ge_values p) eng rt = (r0, e0, t0)"
    by (metis prod_cases3)
  from push_values_events[OF g] obtain n0 where n0: "events t0 = events rt @ n0"
      "polled_keys n0 = []" "filter is_device_call n0 = []"
      "list_all (\<lambda>b. \<not> isl (read_transform (gv_map b) ?pv)) (ge_values p) \<longrightarrow>
         r0 = Inr () \<and>
         pushes n0 = map (\<lambda>b. (gv_characteristic b, projr (read_transform (gv_map b) ?pv))) (ge_values p)"
    by blast
  have c0: "cache e0 = cache eng" using push_values_frame[OF g] by simp
  have split_all: "list_all (\<lambda>(v, b). \<not> isl (read_transform (gv_map b) v)) (bindings_of (cache eng) (p # ps))
      = (list_all (\<lambda>b. \<not> isl (read_transform (gv_map b) ?pv)) (ge_values p) \<and>
         list_all (\<lambda>(v, b). \<not> isl (read_transform (gv_map b) v)) (bindings_of (cache eng) ps))"
    by (auto simp: bindings_of_Cons list_all_iff)
  show ?case
  proof (cases r0)
    case (Inl err)
    with Cons.prems g have "rt1 = t0" by simp
    with n0 Inl show ?thesis unfolding split_all by auto
  next
    case (Inr u)
    with Cons.prems g have "push_props ps e0 t0 = (r, eng1, rt1)" by simp
    from Cons.IH[OF this] c0 obtain n1 where n1: "events rt1 = events t0 @ n1" "polled_keys n1 = []"
      "filter is_device_call n1 = []"
      "list_all (\<lambda>(v, b). \<not> isl (read_transform (gv_map b) v)) (bindings_of (cache eng) ps) \<longrightarrow>
         r = Inr () \<and>
         pushes n1 = map (\<lambda>(v, b). (gv_characteristic b, projr (read_transform (gv_map b) v)))
                       (bindings_of (cache eng) ps)"
      by auto
    have "events rt1 = events rt @ (n0 @ n1)" using n0 n1 by simp
    moreover have "polled_keys (n0 @ n1) = []" using n0 n1 by (simp add: polled_keys_append)
    moreover have "filter is_device_call (n0 @ n1) = []" using n0 n1 by simp
    moreover have "list_all (\<lambda>(v, b). \<not> isl (read_transform (gv_map b) v)) (bindings_of (cache eng) (p # ps)) \<longrightarrow>
        r = Inr () \<and>
        pushes (n0 @ n1) = map (\<lambda>(v, b). (gv_characteristic b, projr (read_transform (gv_map b) v)))
                             (bindings_of (cache eng) (p # ps))"
      unfolding split_all using n0 n1 by (simp add: pushes_append bindings_of_Cons comp_def)
    ultimately show ?thesis by blast
  qed
qed

text \<open>Every run of \<^verbatim>\<open>update\<close> asks the device once, for the keys of the property index.\<close>

lemma update_polls:
  assumes "update eng rt = (r, eng', rt')"
  shows "polled_keys (new_events rt rt') = [map ge_key (props eng)] \<and> props eng' = props eng"
proof -
  let ?ks = "map ge_key (props eng)"
  obtain res w where f: "p_getProps (protocol eng) ?ks (world rt) = (res, w)"
    by (metis prod.exhaust)
  show ?thesis
  proof (cases res)
    case (Inl err)
    with f assms show ?thesis
      by (auto simp: update_def update_try_def emit_def Let_def new_events_def)
  next
    case (Inr m)
    let ?rt0 = "(emit (GetPropsCall ?ks) rt)\<lparr>world := w\<rparr>"
    obtain r0 e0 t0 where g: "push_props (props eng) (eng\<lparr>cache := m\<rparr>) ?rt0 = (r0, e0, t0)"
      by (metis prod_cases3)
    have ut: "update_try eng rt = (r0, e0, t0)"
      using f Inr g by (simp add: update_try_def emit_def Let_def)
    from push_props_events[OF g] obtain n where n: "events t0 = events ?rt0 @ n" "polled_keys n = []"
      by auto
    have fr: "props e0 = props eng" using push_props_frame[OF g] by simp
    have ev0: "events t0 = events rt @ GetPropsCall ?ks # n"
      using n(1) by (simp add: emit_def)
    show ?thesis
    proof (cases r0)
      case (Inl err)
      with assms ut ev0 have "eng' = e0"
          "events rt' = events rt @ GetPropsCall ?ks # n @ LogError err #
             (if is_ProtocolError err then [LogWarn] else [])"
        by (auto simp: update_def emit_def Let_def)
      with fr n(2) show ?thesis
        by (simp add: new_events_def polled_keys_append)
    next
      case (Inr u)
      with assms ut have "eng' = e0" "rt' = t0" by (auto simp: update_def)
      with fr n(2) ev0 show ?thesis by (simp add: new_events_def)
    qed
  qed
qed

text \<open>
  C1. A poll whose batched \<^verbatim>\<open>getProps\<close> call returns the object \<open>m\<close> makes \<open>m\<close> the whole
  cache and asks the device for the registered keys, once. If no read transform throws on
  its value, the values pushed to the characteristics (\<^verbatim>\<open>updateValue\<close>) are, for every
  binding of every registered key in the order of the index, the read transform of the
  binding applied to the value \<open>m\<close> has for the key; nothing is compared with the value
  pushed before, so an unchanged value is pushed again.
\<close>

theorem poll_success:
  assumes "p_getProps (protocol eng) (map ge_key (props eng)) (world rt) = (Inr m, w)"
      and "update eng rt = (r, eng', rt')"
  shows "cache eng' = m \<and> props eng' = props eng \<and>
         polled_keys (new_events rt rt') = [map ge_key (props eng)] \<and>
         (list_all (\<lambda>(v, b). \<not> isl (read_transform (gv_map b) v)) (bindings_of m (props eng)) \<longrightarrow>
            r = Inr () \<and>
            pushes (new_events rt rt')
              = map (\<lambda>(v, b). (gv_characteristic b, projr (read_transform (gv_map b) v)))
                  (bindings_of m (props eng)))"
proof -
  let ?rt0 = "(emit (GetPropsCall (map ge_key (props eng))) rt)\<lparr>world := w\<rparr>"
  obtain r0 e0 t0 where g: "push_props (props eng) (eng\<lparr>cache := m\<rparr>) ?rt0 = (r0, e0, t0)"
    by (metis prod_cases3)
  have ut: "update_try eng rt = (r0, e0, t0)"
    using assms(1) g by (simp add: update_try_def emit_def Let_def)
  from push_props_events[OF g] obtain n where n: "events t0 = events ?rt0 @ n" "polled_keys n = []"
      "list_all (\<lambda>(v, b). \<not> isl (read_transform (gv_map b) v)) (bindings_of m (props eng)) \<longrightarrow>
         r0 = Inr () \<and>
         pushes n = map (\<lambda>(v, b). (gv_characteristic b, projr (read_transform (gv_map b) v)))
                      (bindings_of m (props eng))"
    by auto
  have fr: "cache e0 = m" "props e0 = props eng" using push_props_frame[OF g] by simp_all
  have ev0: "events t0 = events rt @ GetPropsCall (map ge_key (props eng)) # n"
    using n(1) by (simp add: emit_def)
  show ?thesis
  proof (cases r0)
    case (Inl err)
    with assms(2) ut have e: "eng' = e0"
      and t: "events rt' = events rt @ GetPropsCall (map ge_key (props eng)) # n @ LogError err #
                (if is_ProtocolError err then [LogWarn] else [])"
      using ev0 by (auto simp: update_def emit_def Let_def)
    have ne: "new_events rt rt' = GetPropsCall (map ge_key (props eng)) # n @ LogError err #
                (if is_ProtocolError err then [LogWarn] else [])"
      using new_events_append[OF t] .
    from Inl n(3) have "\<not> list_all (\<lambda>(v, b). \<not> isl (read_transform (gv_map b) v)) (bindings_of m (props eng))"
      by auto
    with e fr n(2) show ?thesis unfolding ne by (simp add: polled_keys_append)
  next
    case (Inr u)
    with assms(2) ut have e: "eng' = e0" and t: "rt' = t0" and ru: "r = Inr ()"
      by (auto simp: update_def)
    have ne: "new_events rt rt' = GetPropsCall (map ge_key (props eng)) # n"
      using new_events_append[of rt' rt] ev0 t by simp
    from e fr n ru show ?thesis unfolding ne by simp
  qed
qed

text \<open>
  The example device answers with humidity 47, temperature 21 and led 0: the cache becomes
  that object and the four bound characteristics get 47, 47, 21 and 0.
\<close>

theorem poll_success_witness:
  "cache (fst (snd (update ex_engine (ex_rt True)))) = ex_device \<and>
   polled_keys (new_events (ex_rt True) (snd (snd (update ex_engine (ex_rt True)))))
     = [[''humidity'', ''temp_dec'', ''led_b'']] \<and>
   pushes (new_events (ex_rt True) (snd (snd (update ex_engine (ex_rt True)))))
     = [((''HumidifierDehumidifier'', ''CurrentRelativeHumidity''), JNum 47),
        ((''HumiditySensorHumidity'', ''CurrentRelativeHumidity''), JNum 47),
        ((''TemperatureSensorTemperature'', ''CurrentTemperature''), JNum 21),
        ((''LightbulbLed'', ''On''), JNum 0)]"
proof -
  let ?u = "update ex_engine (ex_rt True)"
  have h1: "p_getProps (protocol ex_engine) (map ge_key (props ex_engine)) (world (ex_rt True))
              = (Inr ex_device, True)"
    by (simp add: ex_engine_def ex_protocol_def ex_rt_def)
  have h2: "?u = (fst ?u, fst (snd ?u), snd (snd ?u))" by simp
  have b: "bindings_of ex_device (props ex_engine)
             = [(JNum 47, \<lparr>gv_characteristic = (''HumidifierDehumidifier'', ''CurrentRelativeHumidity''),
                           gv_map = HistoryMap Inr ''room'' ''humidity''\<rparr>),
                (JNum 47, \<lparr>gv_characteristic = (''HumiditySensorHumidity'', ''CurrentRelativeHumidity''),
                           gv_map = BaseMap Inr\<rparr>),
                (JNum 21, \<lparr>gv_characteristic = (''TemperatureSensorTemperature'', ''CurrentTemperature''),
                           gv_map = HistoryMap Inr ''room'' ''temp''\<rparr>),
                (JNum 0, \<lparr>gv_characteristic = (''LightbulbLed'', ''On''), gv_map = BaseMap Inr\<rparr>)]"
    by (simp add: bindings_of_def ex_engine_def ex_props_def ex_device_def js_get_def)
  have k: "map ge_key (props ex_engine) = [''humidity'', ''temp_dec'', ''led_b'']"
    by (simp add: ex_engine_def ex_props_def)
  from poll_success[OF h1 h2] show ?thesis unfolding b k by simp
qed

text \<open>
  C2. If the \<^verbatim>\<open>getProps\<close> call of a poll throws, \<^verbatim>\<open>update\<close> returns normally with the
  engine as it was (so the cache is unchanged); the only events are the device call and the
  report of the error (with a warning for a protocol error): no value is pushed.
\<close>

theorem poll_failure:
  assumes "p_getProps (protocol eng) (map ge_key (props eng)) (world rt) = (Inl err, w)"
  shows "update eng rt =
           (Inr (), eng,
            rt\<lparr>world := w,
               events := events rt @ GetPropsCall (map ge_key (props eng)) # LogError err #
                           (if is_ProtocolError err then [LogWarn] else [])\<rparr>)"
  using assms by (simp add: update_def update_try_def emit_def Let_def)

theorem poll_failure_witness:
  "update ex_engine (ex_rt False) =
     (Inr (), ex_engine,
      (ex_rt False)\<lparr>world := False,
        events := [GetPropsCall [''humidity'', ''temp_dec'', ''led_b''], LogError ex_error, LogWarn]\<rparr>)"
proof -
  have h: "p_getProps (protocol ex_engine) (map ge_key (props ex_engine)) (world (ex_rt False))
             = (Inl ex_error, False)"
    by (simp add: ex_engine_def ex_protocol_def ex_rt_def)
  have k: "map ge_key (props ex_engine) = [''humidity'', ''temp_dec'', ''led_b'']"
    by (simp add: ex_engine_def ex_props_def)
  have e: "events (ex_rt False) = []" "is_ProtocolError ex_error"
    by (simp_all add: ex_rt_def ex_error_def)
  from poll_failure[OF h] show ?thesis unfolding k using e by simp
qed

section \<open>Reads\<close>

text \<open>
  C3. The get responder of a binding (its key and its read map) makes no device call and
  leaves the outside world and the cache as they are, whatever the cache holds. It answers
  from the cache: when the cached value of the key is truthy it evaluates the read map on
  that value, otherwise on \<^verbatim>\<open>null\<close>, and calls back with no error and the result; only a
  throw of the read map itself comes out as a throw. With an empty cache (no successful
  poll yet) the read map is evaluated on \<^verbatim>\<open>null\<close>.
\<close>

theorem get_serves_cache:
  assumes "getProp eng key gm rt = (r, eng1, rt1)"
  shows "world rt1 = world rt \<and> cache eng1 = cache eng \<and>
         filter is_device_call (new_events rt rt1) = [] \<and>
         (truthy (js_get (cache eng) key) \<longrightarrow>
            getProp eng key gm rt =
              (case getMap gm (js_get (cache eng) key) eng rt of
                 (Inl err, e, t) \<Rightarrow> (Inl err, e, t)
               | (Inr charValue, e, t) \<Rightarrow> (Inr (), e, emit (GetCallback charValue) t))) \<and>
         (\<not> truthy (js_get (cache eng) key) \<longrightarrow>
            getProp eng key gm rt =
              (case getMap gm JNull eng rt of
                 (Inl err, e, t) \<Rightarrow> (Inl err, e, t)
               | (Inr charValue, e, t) \<Rightarrow> (Inr (), e, emit (GetCallback charValue) t))) \<and>
         (cache eng = Map.empty \<longrightarrow>
            getProp eng key gm rt =
              (case getMap gm JNull eng rt of
                 (Inl err, e, t) \<Rightarrow> (Inl err, e, t)
               | (Inr charValue, e, t) \<Rightarrow> (Inr (), e, emit (GetCallback charValue) t)))"
proof -
  let ?v = "if truthy (js_get (cache eng) key) then js_get (cache eng) key else JNull"
  obtain r0 e0 t0 where g: "getMap gm ?v eng rt = (r0, e0, t0)"
    by (metis prod_cases3)
  from getMap_events[OF g] obtain n where n: "events t0 = events rt @ n"
      "filter is_device_call n = []" by blast
  note fr = getMap_frame[OF g]
  have res: "(r, eng1, rt1) =
               (case r0 of Inl err \<Rightarrow> (Inl err, e0, t0)
                         | Inr charValue \<Rightarrow> (Inr (), e0, emit (GetCallback charValue) t0))"
    using assms g by (simp add: getProp_def Let_def split: sum.splits)
  have "world rt1 = world rt \<and> cache eng1 = cache eng \<and>
        filter is_device_call (new_events rt rt1) = []"
    using res fr n by (cases r0) (simp_all add: new_events_def emit_def)
  moreover have "truthy (js_get (cache eng) key) \<longrightarrow>
            getProp eng key gm rt =
              (case getMap gm (js_get (cache eng) key) eng rt of
                 (Inl err, e, t) \<Rightarrow> (Inl err, e, t)
               | (Inr charValue, e, t) \<Rightarrow> (Inr (), e, emit (GetCallback charValue) t))"
    by (simp add: getProp_def)
  moreover have "\<not> truthy (js_get (cache eng) key) \<longrightarrow>
            getProp eng key gm rt =
              (case getMap gm JNull eng rt of
                 (Inl err, e, t) \<Rightarrow> (Inl err, e, t)
               | (Inr charValue, e, t) \<Rightarrow> (Inr (), e, emit (GetCallback charValue) t))"
    by (simp add: getProp_def)
  moreover have "cache eng = Map.empty \<longrightarrow>
            getProp eng key gm rt =
              (case getMap gm JNull eng rt of
                 (Inl err, e, t) \<Rightarrow> (Inl err, e, t)
               | (Inr charValue, e, t) \<Rightarrow> (Inr (), e, emit (GetCallback charValue) t))"
    by (simp add: getProp_def js_get_def)
  ultimately show ?thesis by blast
qed

text \<open>
  Before the first poll the responder of the humidity answers \<^verbatim>\<open>null\<close>; with the cache
  of the example device it answers 47, and the device is not called.
\<close>

theorem get_serves_cache_witness:
  "getProp (new_engine ex_protocol ex_table) ''humidity'' (BaseMap Inr) (ex_rt True)
     = (Inr (), new_engine ex_protocol ex_table, emit (GetCallback JNull) (ex_rt True)) \<and>
   getProp (ex_engine\<lparr>cache := ex_device\<rparr>) ''humidity'' (BaseMap Inr) (ex_rt True)
     = (Inr (), ex_engine\<lparr>cache := ex_device\<rparr>, emit (GetCallback (JNum 47)) (ex_rt True)) \<and>
   filter is_device_call (new_events (ex_rt True)
     (snd (snd (getProp (ex_engine\<lparr>cache := ex_device\<rparr>) ''humidity'' (BaseMap Inr) (ex_rt True)))))
     = []"
proof -
  let ?g = "getProp (new_engine ex_protocol ex_table) ''humidity'' (BaseMap Inr) (ex_rt True)"
  let ?h = "getProp (ex_engine\<lparr>cache := ex_device\<rparr>) ''humidity'' (BaseMap Inr) (ex_rt True)"
  have hg: "?g = (fst ?g, fst (snd ?g), snd (snd ?g))" by simp
  have hh: "?h = (fst ?h, fst (snd ?h), snd (snd ?h))" by simp
  have c: "cache (new_engine ex_protocol ex_table) = Map.empty" by (simp add: new_engine_def)
  have v: "js_get (cache (ex_engine\<lparr>cache := ex_device\<rparr>)) ''humidity'' = JNum 47"
    by (simp add: js_get_def ex_device_def)
  then have t: "truthy (js_get (cache (ex_engine\<lparr>cache := ex_device\<rparr>)) ''humidity'')" by simp
  from get_serves_cache[OF hg] c
  have 1: "?g = (Inr (), new_engine ex_protocol ex_table, emit (GetCallback JNull) (ex_rt True))"
    by simp
  from get_serves_cache[OF hh] t
  have 2: "?h = (case getMap (BaseMap Inr) (js_get (cache (ex_engine\<lparr>cache := ex_device\<rparr>)) ''humidity'')
                       (ex_engine\<lparr>cache := ex_device\<rparr>) (ex_rt True) of
                   (Inl err, e, t) \<Rightarrow> (Inl err, e, t)
                 | (Inr charValue, e, t) \<Rightarrow> (Inr (), e, emit (GetCallback charValue) t))"
    and 3: "filter is_device_call (new_events (ex_rt True) (snd (snd ?h))) = []"
    by blast+
  from 2 have "?h = (Inr (), ex_engine\<lparr>cache := ex_device\<rparr>, emit (GetCallback (JNum 47)) (ex_rt True))"
    unfolding v by simp
  with 1 3 show ?thesis by simp
qed

text \<open>
  C10. When the cached value of the key is falsy (0, \<^verbatim>\<open>false\<close>, the empty string, or
  no value at all), the get responder evaluates the read map on \<^verbatim>\<open>null\<close>, not on the cached
  value.
\<close>

theorem get_null_for_falsy:
  assumes "\<not> truthy (js_get (cache eng) key)"
  shows "getProp eng key gm rt =
           (case getMap gm JNull eng rt of
              (Inl err, eng1, rt1) \<Rightarrow> (Inl err, eng1, rt1)
            | (Inr charValue, eng1, rt1) \<Rightarrow> (Inr (), eng1, emit (GetCallback charValue) rt1))"
  using assms by (simp add: getProp_def)

text \<open>The led reads 0 after a poll; the responder answers \<^verbatim>\<open>null\<close> for it.\<close>

theorem get_null_for_falsy_witness:
  "js_get (cache (ex_engine\<lparr>cache := ex_device\<rparr>)) ''led_b'' = JNum 0 \<and>
   getProp (ex_engine\<lparr>cache := ex_device\<rparr>) ''led_b'' (BaseMap Inr) (ex_rt True)
     = (Inr (), ex_engine\<lparr>cache := ex_device\<rparr>, emit (GetCallback JNull) (ex_rt True))"
proof -
  have v: "js_get (cache (ex_engine\<lparr>cache := ex_device\<rparr>)) ''led_b'' = JNum 0"
    by (simp add: js_get_def ex_device_def)
  then have h: "\<not> truthy (js_get (cache (ex_engine\<lparr>cache := ex_device\<rparr>)) ''led_b'')" by simp
  from get_null_for_falsy[OF h] v show ?thesis by simp
qed

section \<open>Writes\<close>

text \<open>
  C4. A write whose \<^verbatim>\<open>beforeSet\<close> hook returns \<^verbatim>\<open>true\<close> and whose write map returns
  \<open>mv\<close> makes no device call. Without an \<^verbatim>\<open>afterSet\<close> hook it acknowledges success
  right after the first hook; with one, that hook is called with the requested value and
  \<open>mv\<close> in the world the first hook left, and the write acknowledges success when the hook
  returns, failure with the hook's error when it throws.
\<close>

theorem skip_signal:
  assumes "se_beforeSet entry = Some before"
      and "before (v, se_characteristic entry) (world rt) = (Inr (JBool True), w1)"
      and "se_map entry v = Inr mv"
      and "setProp eng entry v rt = (r, eng', rt')"
  shows "filter is_device_call (new_events rt rt') = [] \<and>
         (se_afterSet entry = None \<longrightarrow>
            new_events rt rt' = [BeforeSetCall v (se_characteristic entry), SetCallback None] \<and>
            world rt' = w1) \<and>
         (\<forall>after w2. se_afterSet entry = Some after \<and>
               after (v, mv, se_characteristic entry) w1 = (Inr (), w2) \<longrightarrow>
            new_events rt rt' = [BeforeSetCall v (se_characteristic entry),
                                 AfterSetCall v mv (se_characteristic entry), SetCallback None] \<and>
            world rt' = w2) \<and>
         (\<forall>after err w2. se_afterSet entry = Some after \<and>
               after (v, mv, se_characteristic entry) w1 = (Inl err, w2) \<longrightarrow>
            new_events rt rt' = [BeforeSetCall v (se_characteristic entry),
                                 AfterSetCall v mv (se_characteristic entry),
                                 LogError err, SetCallback (Some err)] \<and>
            world rt' = w2)"
proof -
  let ?c = "se_characteristic entry"
  let ?rt1 = "(emit (BeforeSetCall v ?c) rt)\<lparr>world := w1\<rparr>"
  have b: "run_beforeSet entry v rt = (Inr (JBool True), ?rt1)"
    using assms(1,2) by (simp add: run_beforeSet_def Let_def emit_def)
  have s: "run_setProp eng entry (JBool True) mv ?rt1 = (Inr (), ?rt1)"
    by (simp add: run_setProp_def)
  have t: "setProp_try eng entry v rt =
             (case run_afterSet entry v mv ?rt1 of
                (Inl err, rt3) \<Rightarrow> (Inl err, rt3)
              | (Inr u, rt3) \<Rightarrow> (Inr (), emit (SetCallback None) rt3))"
    using b s assms(3) by (simp add: setProp_try_def)
  show ?thesis
  proof (cases "se_afterSet entry")
    case None
    then have "run_afterSet entry v mv ?rt1 = (Inr (), ?rt1)"
      by (simp add: run_afterSet_def)
    with t assms(4) have "rt' = emit (SetCallback None) ?rt1"
      by (simp add: setProp_def)
    with None show ?thesis by (simp add: new_events_def emit_def)
  next
    case (Some after)
    obtain ra w2 where a: "after (v, mv, ?c) w1 = (ra, w2)" by (metis prod.exhaust)
    let ?rt3 = "(emit (AfterSetCall v mv ?c) ?rt1)\<lparr>world := w2\<rparr>"
    have ra: "run_afterSet entry v mv ?rt1 = (ra, ?rt3)"
      using Some a by (simp add: run_afterSet_def Let_def emit_def)
    show ?thesis
    proof (cases ra)
      case (Inl err)
      with t ra assms(4) have "rt' = emit (SetCallback (Some err)) (emit (LogError err) ?rt3)"
        by (simp add: setProp_def)
      with Some a Inl show ?thesis by (simp add: new_events_def emit_def)
    next
      case (Inr u)
      with t ra assms(4) have "rt' = emit (SetCallback None) ?rt3"
        by (simp add: setProp_def)
      with Some a Inr show ?thesis by (simp add: new_events_def emit_def)
    qed
  qed
qed

text \<open>
  The led written with a hook that signals the skip, without and with a second hook: the
  device (which is down) is not called and the write succeeds.
\<close>

theorem skip_signal_witness:
  "new_events (ex_rt False)
     (snd (snd (setProp ex_engine (ex_entry\<lparr>se_beforeSet := Some skipping_hook\<rparr>) (JBool True) (ex_rt False))))
     = [BeforeSetCall (JBool True) (''LightbulbLed'', ''On''), SetCallback None] \<and>
   new_events (ex_rt False)
     (snd (snd (setProp ex_engine
        (ex_entry\<lparr>se_beforeSet := Some skipping_hook, se_afterSet := Some quiet_after\<rparr>)
        (JBool True) (ex_rt False))))
     = [BeforeSetCall (JBool True) (''LightbulbLed'', ''On''),
        AfterSetCall (JBool True) (JNum 1) (''LightbulbLed'', ''On''), SetCallback None]"
proof -
  let ?e1 = "ex_entry\<lparr>se_beforeSet := Some skipping_hook\<rparr>"
  let ?e2 = "ex_entry\<lparr>se_beforeSet := Some skipping_hook, se_afterSet := Some quiet_after\<rparr>"
  let ?s1 = "setProp ex_engine ?e1 (JBool True) (ex_rt False)"
  let ?s2 = "setProp ex_engine ?e2 (JBool True) (ex_rt False)"
  have c: "se_characteristic ?e1 = (''LightbulbLed'', ''On'')"
      "se_characteristic ?e2 = (''LightbulbLed'', ''On'')"
    by (simp_all add: ex_entry_def)
  have a1: "se_beforeSet ?e1 = Some skipping_hook" by simp
  have a2: "skipping_hook (JBool True, se_characteristic ?e1) (world (ex_rt False))
              = (Inr (JBool True), False)"
    by (simp add: skipping_hook_def ex_rt_def)
  have a3: "se_map ?e1 (JBool True) = Inr (JNum 1)" by (simp add: ex_entry_def)
  have a4: "?s1 = (fst ?s1, fst (snd ?s1), snd (snd ?s1))" by simp
  have n1: "se_afterSet ?e1 = None" by (simp add: ex_entry_def)
  have b1: "se_beforeSet ?e2 = Some skipping_hook" by simp
  have b2: "skipping_hook (JBool True, se_characteristic ?e2) (world (ex_rt False))
              = (Inr (JBool True), False)"
    by (simp add: skipping_hook_def ex_rt_def)
  have b3: "se_map ?e2 (JBool True) = Inr (JNum 1)" by (simp add: ex_entry_def)
  have b4: "?s2 = (fst ?s2, fst (snd ?s2), snd (snd ?s2))" by simp
  have n2: "se_afterSet ?e2 = Some quiet_after"
      "quiet_after (JBool True, JNum 1, se_characteristic ?e2) False = (Inr (), False)"
    by (simp_all add: quiet_after_def)
  from skip_signal[OF a1 a2 a3 a4] n1
  have "new_events (ex_rt False) (snd (snd ?s1))
          = [BeforeSetCall (JBool True) (se_characteristic ?e1), SetCallback None]"
    by blast
  moreover from skip_signal[OF b1 b2 b3 b4] n2
  have "new_events (ex_rt False) (snd (snd ?s2))
          = [BeforeSetCall (JBool True) (se_characteristic ?e2),
             AfterSetCall (JBool True) (JNum 1) (se_characteristic ?e2), SetCallback None]"
    by blast
  ultimately show ?thesis unfolding c by simp
qed

text \<open>
  C5. \<^verbatim>\<open>setProp\<close> always returns and never changes the engine, so the write path leaves the
  cache alone on success and on failure. When a step throws (the \<^verbatim>\<open>beforeSet\<close> hook, the
  write map, the device call, the \<^verbatim>\<open>afterSet\<close> hook), the only events after the state that
  step was started in (for a hook or a device call: after the call itself) are the report of
  the error and the acknowledgment with that error: no later step runs and success is not
  acknowledged.
\<close>

theorem write_failure:
  assumes "setProp eng entry v rt = (r, eng', rt')"
  shows "r = Inr () \<and> eng' = eng \<and>
         (\<forall>err rt1. run_beforeSet entry v rt = (Inl err, rt1) \<longrightarrow>
            new_events rt1 rt' = [LogError err, SetCallback (Some err)] \<and> world rt' = world rt1) \<and>
         (\<forall>skipSet rt1 err. run_beforeSet entry v rt = (Inr skipSet, rt1) \<and> se_map entry v = Inl err \<longrightarrow>
            new_events rt1 rt' = [LogError err, SetCallback (Some err)] \<and> world rt' = world rt1) \<and>
         (\<forall>skipSet rt1 mv err w2. run_beforeSet entry v rt = (Inr skipSet, rt1) \<and> se_map entry v = Inr mv \<and>
               skipSet \<noteq> JBool True \<and>
               p_setProp (protocol eng) (se_key entry) (se_call entry) mv (world rt1) = (Inl err, w2) \<longrightarrow>
            new_events rt1 rt' = [SetPropCall (se_key entry) (se_call entry) mv,
                                  LogError err, SetCallback (Some err)] \<and> world rt' = w2) \<and>
         (\<forall>skipSet rt1 mv rt2 after err w3. run_beforeSet entry v rt = (Inr skipSet, rt1) \<and> se_map entry v = Inr mv \<and>
               run_setProp eng entry skipSet mv rt1 = (Inr (), rt2) \<and>
               se_afterSet entry = Some after \<and>
               after (v, mv, se_characteristic entry) (world rt2) = (Inl err, w3) \<longrightarrow>
            new_events rt2 rt' = [AfterSetCall v mv (se_characteristic entry),
                                  LogError err, SetCallback (Some err)] \<and> world rt' = w3)"
  using assms
  by (auto simp: setProp_def setProp_try_def run_setProp_def run_afterSet_def Let_def new_events_def emit_def
           split: prod.splits sum.splits)

text \<open>
  The led written four times: with a first hook that throws, with a write map that throws,
  with the device down, and with a second hook that throws.
\<close>

theorem write_failure_witness:
  "fst (snd (setProp ex_engine ex_entry (JBool True) (ex_rt False))) = ex_engine \<and>
   new_events
     ((emit (BeforeSetCall (JBool True) (''LightbulbLed'', ''On'')) (ex_rt True))\<lparr>world := True\<rparr>)
     (snd (snd (setProp ex_engine (ex_entry\<lparr>se_beforeSet := Some failing_hook\<rparr>) (JBool True) (ex_rt True))))
     = [LogError ex_error, SetCallback (Some ex_error)] \<and>
   new_events (ex_rt True)
     (snd (snd (setProp ex_engine (ex_entry\<lparr>se_map := (\<lambda>v. Inl ex_error)\<rparr>) (JBool True) (ex_rt True))))
     = [LogError ex_error, SetCallback (Some ex_error)] \<and>
   new_events (ex_rt False) (snd (snd (setProp ex_engine ex_entry (JBool True) (ex_rt False))))
     = [SetPropCall ''led_b'' ''set_led_b'' (JNum 1), LogError ex_error, SetCallback (Some ex_error)] \<and>
   new_events
     ((emit (SetPropCall ''led_b'' ''set_led_b'' (JNum 1)) (ex_rt True))\<lparr>world := True\<rparr>)
     (snd (snd (setProp ex_engine (ex_entry\<lparr>se_afterSet := Some failing_after\<rparr>) (JBool True) (ex_rt True))))
     = [AfterSetCall (JBool True) (JNum 1) (''LightbulbLed'', ''On''),
        LogError ex_error, SetCallback (Some ex_error)]"
proof -
  let ?c = "(''LightbulbLed'', ''On'')"
  let ?ea = "ex_entry\<lparr>se_beforeSet := Some failing_hook\<rparr>"
  let ?eb = "ex_entry\<lparr>se_map := (\<lambda>v. Inl ex_error)\<rparr>"
  let ?ed = "ex_entry\<lparr>se_afterSet := Some failing_after\<rparr>"
  let ?sa = "setProp ex_engine ?ea (JBool True) (ex_rt True)"
  let ?sb = "setProp ex_engine ?eb (JBool True) (ex_rt True)"
  let ?sc = "setProp ex_engine ex_entry (JBool True) (ex_rt False)"
  let ?sd = "setProp ex_engine ?ed (JBool True) (ex_rt True)"
  have ha: "?sa = (fst ?sa, fst (snd ?sa), snd (snd ?sa))" by simp
  have hb: "?sb = (fst ?sb, fst (snd ?sb), snd (snd ?sb))" by simp
  have hc: "?sc = (fst ?sc, fst (snd ?sc), snd (snd ?sc))" by simp
  have hd: "?sd = (fst ?sd, fst (snd ?sd), snd (snd ?sd))" by simp
  \<comment> \<open>the first hook throws\<close>
  have a1: "run_beforeSet ?ea (JBool True) (ex_rt True)
              = (Inl ex_error, (emit (BeforeSetCall (JBool True) ?c) (ex_rt True))\<lparr>world := True\<rparr>)"
    by (simp add: run_beforeSet_def ex_entry_def failing_hook_def Let_def emit_def ex_rt_def)
  from write_failure[OF ha] a1
  have ra: "new_events ((emit (BeforeSetCall (JBool True) ?c) (ex_rt True))\<lparr>world := True\<rparr>) (snd (snd ?sa))
              = [LogError ex_error, SetCallback (Some ex_error)]"
    by blast
  \<comment> \<open>the write map throws\<close>
  have b1: "run_beforeSet ?eb (JBool True) (ex_rt True) = (Inr JUndefined, ex_rt True)"
      "se_map ?eb (JBool True) = Inl ex_error"
    by (simp_all add: run_beforeSet_def ex_entry_def)
  from write_failure[OF hb] b1
  have rb: "new_events (ex_rt True) (snd (snd ?sb)) = [LogError ex_error, SetCallback (Some ex_error)]"
    by blast
  \<comment> \<open>the device call throws\<close>
  have c1: "run_beforeSet ex_entry (JBool True) (ex_rt False) = (Inr JUndefined, ex_rt False)"
      "se_map ex_entry (JBool True) = Inr (JNum 1)" "JUndefined \<noteq> JBool True"
      "p_setProp (protocol ex_engine) (se_key ex_entry) (se_call ex_entry) (JNum 1) (world (ex_rt False))
         = (Inl ex_error, False)"
    by (simp_all add: run_beforeSet_def ex_entry_def ex_engine_def ex_protocol_def ex_rt_def)
  from write_failure[OF hc] c1
  have rc: "new_events (ex_rt False) (snd (snd ?sc))
              = [SetPropCall (se_key ex_entry) (se_call ex_entry) (JNum 1),
                 LogError ex_error, SetCallback (Some ex_error)]"
    by blast
  from write_failure[OF hc] have re: "fst (snd ?sc) = ex_engine" by blast
  \<comment> \<open>the second hook throws\<close>
  have d1: "run_beforeSet ?ed (JBool True) (ex_rt True) = (Inr JUndefined, ex_rt True)"
      "se_map ?ed (JBool True) = Inr (JNum 1)"
      "run_setProp ex_engine ?ed JUndefined (JNum 1) (ex_rt True)
         = (Inr (), (emit (SetPropCall ''led_b'' ''set_led_b'' (JNum 1)) (ex_rt True))\<lparr>world := True\<rparr>)"
      "se_afterSet ?ed = Some failing_after"
      "failing_after (JBool True, JNum 1, se_characteristic ?ed)
         (world ((emit (SetPropCall ''led_b'' ''set_led_b'' (JNum 1)) (ex_rt True))\<lparr>world := True\<rparr>))
         = (Inl ex_error, True)"
    by (simp_all add: run_beforeSet_def run_setProp_def ex_entry_def ex_engine_def ex_protocol_def
          ex_rt_def emit_def Let_def failing_after_def)
  from write_failure[OF hd] d1
  have rd: "new_events ((emit (SetPropCall ''led_b'' ''set_led_b'' (JNum 1)) (ex_rt True))\<lparr>world := True\<rparr>)
              (snd (snd ?sd))
              = [AfterSetCall (JBool True) (JNum 1) (se_characteristic ?ed),
                 LogError ex_error, SetCallback (Some ex_error)]"
    by blast
  have k: "se_key ex_entry = ''led_b''" "se_call ex_entry = ''set_led_b''"
      "se_characteristic ?ed = ?c"
    by (simp_all add: ex_entry_def)
  from ra rb rc rd re show ?thesis unfolding k by simp
qed

section \<open>The property index\<close>

lemma index_where_Some:
  "index_where P xs = Some j \<Longrightarrow> j < length xs \<and> P (xs ! j)"
proof (induction xs arbitrary: j)
  case Nil
  then show ?case by simp
next
  case (Cons x xs)
  then show ?case by (cases "P x") (auto split: if_splits)
qed

lemma index_where_None:
  "index_where P xs = None \<Longrightarrow> \<forall>x \<in> set xs. \<not> P x"
  by (induction xs) (auto split: if_splits)

lemma add_binding_keys:
  "map ge_key (add_binding k b ps) =
     (if k \<in> set (map ge_key ps) then map ge_key ps else map ge_key ps @ [k])"
proof (cases "index_where (\<lambda>prop. ge_key prop = k) ps")
  case None
  from index_where_None[OF None] have "k \<notin> set (map ge_key ps)" by auto
  with None show ?thesis by (simp add: add_binding_def)
next
  case (Some j)
  from index_where_Some[OF Some] have j: "j < length ps" "ge_key (ps ! j) = k" by simp_all
  then have "k \<in> set (map ge_key ps)" by (metis length_map nth_map nth_mem)
  moreover have "map ge_key (ps[j := (ps ! j)\<lparr>ge_values := ge_values (ps ! j) @ [b]\<rparr>]) = map ge_key ps"
    using j by (simp add: map_update list_update_same_conv)
  ultimately show ?thesis using Some by (simp add: add_binding_def)
qed

lemma register_props:
  assumes "register f eng acc rt = (Inr u, eng1, acc1, rt1)"
  shows "map ge_key (props eng1) =
           (case feature_key f of
              None \<Rightarrow> map ge_key (props eng)
            | Some k \<Rightarrow> if k \<in> set (map ge_key (props eng)) then map ge_key (props eng)
                        else map ge_key (props eng) @ [k])"
    and "features eng1 = features eng" and "protocol eng1 = protocol eng"
  using assms
  by (auto simp: register_def feature_key_def Let_def add_binding_keys
           split: sum.splits prod.splits variant.splits config_value.splits)

lemma register_all_props:
  assumes "register_all fs eng acc rt = (Inr u, eng1, acc1, rt1)"
  shows "set (map ge_key (props eng1)) = set (map ge_key (props eng)) \<union> set (List.map_filter feature_key fs)
         \<and> (distinct (map ge_key (props eng)) \<longrightarrow> distinct (map ge_key (props eng1)))
         \<and> features eng1 = features eng \<and> protocol eng1 = protocol eng"
  using assms
proof (induction fs arbitrary: eng acc rt)
  case Nil
  then show ?case by (simp add: List.map_filter_simps)
next
  case (Cons f fs)
  obtain r0 e0 a0 t0 where g: "register f eng acc rt = (r0, e0, a0, t0)"
    by (metis prod_cases4)
  show ?case
  proof (cases r0)
    case (Inl err)
    with Cons.prems g show ?thesis by simp
  next
    case (Inr u0)
    with Cons.prems g have ra: "register_all fs e0 a0 t0 = (Inr u, eng1, acc1, rt1)" by simp
    from g Inr have g': "register f eng acc rt = (Inr u0, e0, a0, t0)" by simp
    note step = register_props[OF g']
    have k0: "set (map ge_key (props e0)) = set (map ge_key (props eng)) \<union> set (List.map_filter feature_key [f])"
      using step(1) by (cases "feature_key f") (auto simp: List.map_filter_simps)
    have d0: "distinct (map ge_key (props eng)) \<longrightarrow> distinct (map ge_key (props e0))"
      using step(1) by (cases "feature_key f") auto
    have mf: "set (List.map_filter feature_key (f # fs)) = set (List.map_filter feature_key [f]) \<union> set (List.map_filter feature_key fs)"
      by (cases "feature_key f") (auto simp: List.map_filter_simps)
    from Cons.IH[OF ra] k0 d0 step(2,3) show ?thesis unfolding mf by auto
  qed
qed

lemma configureAccessory_props:
  assumes "configureAccessory eng acc rt = (Inr u, eng1, acc1, rt1)"
  shows "set (map ge_key (props eng1)) = set (map ge_key (props eng)) \<union> set (List.map_filter feature_key (features eng))
         \<and> (distinct (map ge_key (props eng)) \<longrightarrow> distinct (map ge_key (props eng1)))"
proof -
  obtain r0 e0 a0 t0 where g: "register_all (features eng) eng acc rt = (r0, e0, a0, t0)"
    by (metis prod_cases4)
  show ?thesis
  proof (cases r0)
    case (Inl err)
    with assms g show ?thesis by (simp add: configureAccessory_def)
  next
    case (Inr u0)
    with g have g': "register_all (features eng) eng acc rt = (Inr u0, e0, a0, t0)" by simp
    from assms g' have "props eng1 = props e0"
      by (auto simp: configureAccessory_def Let_def)
    with register_all_props[OF g'] show ?thesis by simp
  qed
qed

text \<open>The example engine is the one \<^verbatim>\<open>configureAccessory\<close> makes of the example table.\<close>

lemma ex_engine_configured:
  "props (fst (snd (configureAccessory (new_engine ex_protocol ex_table) [] (ex_rt True)))) = ex_props"
  by (simp add: configureAccessory_def new_engine_def ex_table_def register_def obtain_service_def
        model_feature_def humidity_reading_def humidity_feature_def temperature_reading_def
        temperature_feature_def led_feature_def sensor_feature_def getService_name_def
        getService_class_def addService_def new_service_def getCharacteristic_def getServiceId_def
        add_binding_def ex_props_def emit_def Let_def ex_rt_def)

text \<open>
  C6. When a new engine has configured an accessory (the pass did not throw), the keys of
  its property index are, without repetition, exactly the device keys of the bindings of
  the table that have neither a static value nor a get-callback; a poll asks the device
  once, for exactly the keys of the index, and leaves the index as it is for the next poll.
\<close>

theorem property_index_keys:
  assumes "configureAccessory (new_engine p fs) acc rt = (Inr (), eng1, acc1, rt1)"
      and "update eng1 rt2 = (r, eng2, rt3)"
  shows "set (map ge_key (props eng1)) = set (List.map_filter feature_key fs) \<and>
         distinct (map ge_key (props eng1)) \<and>
         polled_keys (new_events rt2 rt3) = [map ge_key (props eng1)] \<and>
         props eng2 = props eng1"
  using configureAccessory_props[OF assms(1)] update_polls[OF assms(2)]
  by (simp add: new_engine_def)

text \<open>
  The example table: the static model binding gives no key, the two humidity bindings
  share one.
\<close>

theorem property_index_keys_witness:
  "set (map ge_key (props (fst (snd (configureAccessory (new_engine ex_protocol ex_table) [] (ex_rt True))))))
     = {''humidity'', ''temp_dec'', ''led_b''} \<and>
   polled_keys (new_events (ex_rt True)
      (snd (snd (update (fst (snd (configureAccessory (new_engine ex_protocol ex_table) [] (ex_rt True))))
                        (ex_rt True)))))
     = [[''humidity'', ''temp_dec'', ''led_b'']]"
proof -
  let ?c = "configureAccessory (new_engine ex_protocol ex_table) [] (ex_rt True)"
  let ?u = "update (fst (snd ?c)) (ex_rt True)"
  have ok: "fst ?c = Inr ()" by code_simp
  have h1: "?c = (Inr (), fst (snd ?c), fst (snd (snd ?c)), snd (snd (snd ?c)))"
    using ok by (metis prod.collapse)
  have h2: "?u = (fst ?u, fst (snd ?u), snd (snd ?u))" by simp
  have ks: "List.map_filter feature_key ex_table = [''humidity'', ''humidity'', ''temp_dec'', ''led_b'']"
    by code_simp
  have k: "map ge_key (props (fst (snd ?c))) = [''humidity'', ''temp_dec'', ''led_b'']"
    by code_simp
  from property_index_keys[OF h1 h2] have
    "set (map ge_key (props (fst (snd ?c)))) = set (List.map_filter feature_key ex_table)"
    "polled_keys (new_events (ex_rt True) (snd (snd ?u))) = [map ge_key (props (fst (snd ?c)))]"
    by simp_all
  then show ?thesis unfolding ks k by auto
qed

text \<open>
  C7. The cleanup of \<^verbatim>\<open>configureAccessory\<close> removes entries from the arrays it is walking,
  so the entry after a removed one is not looked at. With temperature and humidity sensors
  and a led configured, disabling both sensors leaves the humidity sensor in the tree;
  disabling the led at the next restart then removes that sensor and skips the led: the
  service of the led is still in the tree after the pass, although the table no longer
  names it. The key of the led is not in the property index of the new engine.
\<close>

theorem cleanup_skips_after_removal:
  "map getServiceId
     (reconfigured [humidifier_feature, temperature_feature, humidity_feature, led_feature] [])
     = [''HumidifierDehumidifier'', ''TemperatureSensorTemperature'', ''HumiditySensorHumidity'',
        ''LightbulbLed''] \<and>
   map getServiceId
     (reconfigured [humidifier_feature, led_feature]
        (reconfigured [humidifier_feature, temperature_feature, humidity_feature, led_feature] []))
     = [''HumidifierDehumidifier'', ''HumiditySensorHumidity'', ''LightbulbLed''] \<and>
   map getServiceId
     (reconfigured [humidifier_feature]
        (reconfigured [humidifier_feature, led_feature]
           (reconfigured [humidifier_feature, temperature_feature, humidity_feature, led_feature] [])))
     = [''HumidifierDehumidifier'', ''LightbulbLed''] \<and>
   map ge_key (props (fst (snd (configureAccessory (new_engine ex_protocol [humidifier_feature])
        (reconfigured [humidifier_feature, led_feature]
           (reconfigured [humidifier_feature, temperature_feature, humidity_feature, led_feature] []))
        (ex_rt True)))))
     = [''power'']"
  by code_simp

section \<open>History\<close>

subsection \<open>The walk of a poll cycle, binding by binding\<close>

lemma push_values_flat:
  "push_values pv vs eng rt = push_bindings (map (Pair pv) vs) eng rt"
proof (induction vs arbitrary: eng rt)
  case Nil
  show ?case by simp
next
  case (Cons v vs)
  obtain r0 e0 t0 where g: "getMap (gv_map v) pv eng rt = (r0, e0, t0)"
    by (metis prod_cases3)
  show ?case using g Cons.IH by (cases r0) simp_all
qed

lemma push_bindings_append:
  "push_bindings (xs @ ys) eng rt =
     (case push_bindings xs eng rt of
        (Inl err, eng1, rt1) \<Rightarrow> (Inl err, eng1, rt1)
      | (Inr u, eng1, rt1) \<Rightarrow> push_bindings ys eng1 rt1)"
proof (induction xs arbitrary: eng rt)
  case Nil
  show ?case by simp
next
  case (Cons x xs)
  obtain pv v where x: "x = (pv, v)" by (cases x)
  obtain r0 e0 t0 where g: "getMap (gv_map v) pv eng rt = (r0, e0, t0)"
    by (metis prod_cases3)
  show ?case using x g Cons.IH by (cases r0) simp_all
qed

text \<open>What one evaluation of a read map does to the history handles.\<close>

lemma getMap_handles:
  assumes "getMap gm it eng rt = (r, eng1, rt1)"
  shows "(historyServices eng1 ch = None) = (historyServices eng ch = None)"
    and "parseInt_blank rt1 = parseInt_blank rt"
  using assms
  by (cases gm; auto simp: emit_def now_seconds_def Let_def
        split: sum.splits if_splits option.splits prod.splits)+

lemma getMap_reads:
  assumes "getMap (gv_map b) v eng rt = (Inr cv, eng1, rt1)"
  shows "clock_reads rt1 = clock_reads rt + (if recording eng (v, b) then 1 else 0)"
  using assms
  by (cases "gv_map b") (auto simp: emit_def now_seconds_def Let_def
        split: sum.splits if_splits option.splits prod.splits)

lemma getMap_entries:
  assumes "getMap gm it eng rt = (r, eng1, rt1)"
  shows "(history_entries eng ch \<noteq> [] \<longrightarrow>
            length (history_entries eng1 ch) = length (history_entries eng ch)) \<and>
         (history_entries eng ch = [] \<longrightarrow> length (history_entries eng1 ch) \<le> 1)"
  using assms
  by (cases gm) (auto simp: emit_def now_seconds_def Let_def history_entries_def
        getLastEntry_def addEntry_def
        split: sum.splits if_splits option.splits prod.splits)

lemma getMap_keeps:
  assumes "getMap gm it eng rt = (r, eng1, rt1)"
      and "\<not> records_under ch fs gm" and "k \<in> set fs" and "k \<noteq> ''time''"
      and "history_field eng ch k = Some a"
  shows "history_field eng1 ch k = Some a"
  using assms
  by (cases gm) (auto simp: emit_def now_seconds_def Let_def history_field_def
        getLastEntry_def addEntry_def
        split: sum.splits if_splits option.splits prod.splits)

lemma getMap_time:
  assumes "getMap gm it eng rt = (r, eng1, rt1)"
      and "\<not> records_under ch fs gm" and "''time'' \<in> set fs"
      and "lo \<le> n" and "n < clock_reads rt"
      and "history_field eng ch ''time'' = Some (JNum ((clock rt n + 500) div 1000))"
  shows "\<exists>n'. lo \<le> n' \<and> n' < clock_reads rt1 \<and>
           history_field eng1 ch ''time'' = Some (JNum ((clock rt n' + 500) div 1000))"
proof (cases "historyServices eng1 ch = historyServices eng ch")
  case True
  then have "history_field eng1 ch ''time'' = history_field eng ch ''time''"
    by (simp add: history_field_def)
  with assms(4,5,6) getMap_clock_reads[OF assms(1)] show ?thesis
    by (intro exI[of _ n]) simp
next
  case False
  with assms(1,2,3) have "history_field eng1 ch ''time'' = Some (JNum ((clock rt (clock_reads rt) + 500) div 1000))
      \<and> clock_reads rt1 = Suc (clock_reads rt)"
    by (cases gm) (auto simp: emit_def now_seconds_def Let_def history_field_def
        getLastEntry_def addEntry_def
        split: sum.splits if_splits option.splits prod.splits)
  with assms(4,5) show ?thesis
    by (intro exI[of _ "clock_reads rt"]) simp
qed

text \<open>A property that every evaluation of a read map keeps is kept by the walk.\<close>

lemma push_bindings_invariant:
  assumes run: "push_bindings bs eng rt = (r, eng1, rt1)"
      and base: "P eng rt"
      and step: "\<And>v b e t r0 e0 t0. (v, b) \<in> set bs \<Longrightarrow> P e t \<Longrightarrow>
                    getMap (gv_map b) v e t = (r0, e0, t0) \<Longrightarrow> P e0 t0"
      and push: "\<And>e t c cv. P e t \<Longrightarrow> P e (emit (UpdateValue c cv) t)"
  shows "P eng1 rt1"
  using run base step
proof (induction bs arbitrary: eng rt)
  case Nil
  then show ?case by simp
next
  case (Cons x xs)
  obtain pv v where x: "x = (pv, v)" by (cases x)
  obtain r0 e0 t0 where g: "getMap (gv_map v) pv eng rt = (r0, e0, t0)"
    by (metis prod_cases3)
  have p0: "P e0 t0" using Cons.prems(3)[of pv v eng rt r0 e0 t0] x Cons.prems(2) g by simp
  show ?case
  proof (cases r0)
    case (Inl err)
    with Cons.prems(1) x g have "eng1 = e0" "rt1 = t0" by simp_all
    with p0 show ?thesis by simp
  next
    case (Inr cv)
    let ?t = "emit (UpdateValue (gv_characteristic v) cv) t0"
    from Inr Cons.prems(1) x g have run': "push_bindings xs e0 ?t = (r, eng1, rt1)" by simp
    show ?thesis
    proof (rule Cons.IH[OF run'])
      show "P e0 ?t" using push[OF p0] .
    next
      fix v' b e t r1 e1 t1
      assume "(v', b) \<in> set xs" "P e t" "getMap (gv_map b) v' e t = (r1, e1, t1)"
      then show "P e1 t1" using Cons.prems(3)[of v' b e t r1 e1 t1] by simp
    qed
  qed
qed

lemma push_bindings_frame:
  assumes "push_bindings xs (eng :: 'w engine) rt = (r, eng1, rt1)"
  shows "cache eng1 = cache eng \<and> props eng1 = props eng \<and> clock rt1 = clock rt \<and>
         parseInt_blank rt1 = parseInt_blank rt \<and> clock_reads rt \<le> clock_reads rt1 \<and>
         (\<forall>ch. (historyServices eng1 ch = None) = (historyServices eng ch = None))"
proof (rule push_bindings_invariant[OF assms,
    where P = "\<lambda>e t. cache e = cache eng \<and> props e = props eng \<and> clock t = clock rt \<and>
         parseInt_blank t = parseInt_blank rt \<and> clock_reads rt \<le> clock_reads t \<and>
         (\<forall>ch. (historyServices e ch = None) = (historyServices eng ch = None))"])
  show "cache eng = cache eng \<and> props eng = props eng \<and> clock rt = clock rt \<and>
         parseInt_blank rt = parseInt_blank rt \<and> clock_reads rt \<le> clock_reads rt \<and>
         (\<forall>ch. (historyServices eng ch = None) = (historyServices eng ch = None))" by simp
next
  fix v b e t r0 e0 t0
  assume p: "cache e = cache eng \<and> props e = props eng \<and> clock t = clock rt \<and>
         parseInt_blank t = parseInt_blank rt \<and> clock_reads rt \<le> clock_reads t \<and>
         (\<forall>ch. (historyServices e ch = None) = (historyServices eng ch = None))"
    and g: "getMap (gv_map b) v e t = (r0, e0, t0)"
  from getMap_frame[OF g] getMap_handles[OF g] getMap_clock_reads[OF g] p
  show "cache e0 = cache eng \<and> props e0 = props eng \<and> clock t0 = clock rt \<and>
         parseInt_blank t0 = parseInt_blank rt \<and> clock_reads rt \<le> clock_reads t0 \<and>
         (\<forall>ch. (historyServices e0 ch = None) = (historyServices eng ch = None))"
    by simp
next
  fix e :: "'w engine" and t :: "'w rt" and c cv
  assume "cache e = cache eng \<and> props e = props eng \<and> clock t = clock rt \<and>
         parseInt_blank t = parseInt_blank rt \<and> clock_reads rt \<le> clock_reads t \<and>
         (\<forall>ch. (historyServices e ch = None) = (historyServices eng ch = None))"
  then show "cache e = cache eng \<and> props e = props eng \<and>
         clock (emit (UpdateValue c cv) t) = clock rt \<and>
         parseInt_blank (emit (UpdateValue c cv) t) = parseInt_blank rt \<and>
         clock_reads rt \<le> clock_reads (emit (UpdateValue c cv) t) \<and>
         (\<forall>ch. (historyServices e ch = None) = (historyServices eng ch = None))"
    by (simp add: emit_def)
qed

lemma push_bindings_quiet:
  assumes "push_bindings xs eng rt = (r, eng1, rt1)"
      and "list_all (\<lambda>(v, b). \<not> writes_channel ch (gv_map b)) xs"
  shows "historyServices eng1 ch = historyServices eng ch"
proof (rule push_bindings_invariant[OF assms(1),
    where P = "\<lambda>e t. historyServices e ch = historyServices eng ch"])
  show "historyServices eng ch = historyServices eng ch" by simp
next
  fix v b e t r0 e0 t0
  assume m: "(v, b) \<in> set xs" and p: "historyServices e ch = historyServices eng ch"
    and g: "getMap (gv_map b) v e t = (r0, e0, t0)"
  from m assms(2) have "\<not> writes_channel ch (gv_map b)" by (auto simp: list_all_iff)
  from getMap_history_frame(2)[OF g this] p
  show "historyServices e0 ch = historyServices eng ch" by simp
qed simp

lemma push_bindings_ok:
  assumes "push_bindings xs eng rt = (r, eng1, rt1)"
      and "list_all (\<lambda>(v, b). \<not> isl (read_transform (gv_map b) v)) xs"
  shows "r = Inr ()"
  using assms
proof (induction xs arbitrary: eng rt)
  case Nil
  then show ?case by simp
next
  case (Cons x xs)
  obtain pv v where x: "x = (pv, v)" by (cases x)
  obtain r0 e0 t0 where g: "getMap (gv_map v) pv eng rt = (r0, e0, t0)"
    by (metis prod_cases3)
  have val: "r0 = read_transform (gv_map v) pv" using getMap_value[OF g] .
  show ?case
  proof (cases r0)
    case (Inl err)
    then have "isl r0" by simp
    then have "isl (read_transform (gv_map v) pv)" unfolding val .
    with Cons.prems(2) x show ?thesis by simp
  next
    case (Inr cv)
    with Cons.prems x g
    have "push_bindings xs e0 (emit (UpdateValue (gv_characteristic v) cv) t0) = (r, eng1, rt1)"
      by simp
    from Cons.IH[OF this] Cons.prems(2) show ?thesis by simp
  qed
qed

lemma push_props_flat:
  "push_props ps eng rt = push_bindings (bindings_of (cache eng) ps) eng rt"
proof (induction ps arbitrary: eng rt)
  case Nil
  show ?case by (simp add: bindings_of_def)
next
  case (Cons p ps)
  let ?xs = "map (Pair (js_get (cache eng) (ge_key p))) (ge_values p)"
  have b: "bindings_of (cache eng) (p # ps) = ?xs @ bindings_of (cache eng) ps"
    by (simp add: bindings_of_def)
  obtain r0 e0 t0 where g: "push_bindings ?xs eng rt = (r0, e0, t0)"
    by (metis prod_cases3)
  have c: "cache e0 = cache eng" using push_bindings_frame[OF g] by simp
  show ?case unfolding b push_bindings_append
    using g c Cons.IH[of e0 t0] by (cases r0) (simp_all add: push_values_flat)
qed

lemma recording_handles:
  assumes "\<forall>ch. (historyServices e1 ch = None) = (historyServices e ch = None)"
  shows "recording e1 = recording e"
proof
  fix x :: "jsval \<times> get_value"
  obtain v b where x: "x = (v, b)" by (cases x)
  show "recording e1 x = recording e x"
    unfolding x using assms by (simp split: read_map.splits sum.splits)
qed

lemma push_bindings_reads:
  assumes "push_bindings bs eng rt = (Inr u, eng1, rt1)"
  shows "clock_reads rt1 = clock_reads rt + length (filter (recording eng) bs)"
  using assms
proof (induction bs arbitrary: eng rt)
  case Nil
  then show ?case by simp
next
  case (Cons x xs)
  obtain pv v where x: "x = (pv, v)" by (cases x)
  obtain r0 e0 t0 where g: "getMap (gv_map v) pv eng rt = (r0, e0, t0)"
    by (metis prod_cases3)
  show ?case
  proof (cases r0)
    case (Inl err)
    with Cons.prems x g show ?thesis by simp
  next
    case (Inr cv)
    let ?t = "emit (UpdateValue (gv_characteristic v) cv) t0"
    from Inr Cons.prems x g have run: "push_bindings xs e0 ?t = (Inr u, eng1, rt1)" by simp
    from g Inr have g': "getMap (gv_map v) pv eng rt = (Inr cv, e0, t0)" by simp
    have same: "recording e0 = recording eng"
      using getMap_handles(1)[OF g] by (intro recording_handles) simp
    from Cons.IH[OF run] getMap_reads[OF g'] same x show ?thesis
      by (simp add: emit_def)
  qed
qed

lemma push_bindings_entries:
  assumes "push_bindings bs eng rt = (r, eng1, rt1)"
  shows "length (history_entries eng1 ch) = length (history_entries eng ch) \<or>
         (history_entries eng ch = [] \<and> length (history_entries eng1 ch) = 1)"
proof (rule push_bindings_invariant[OF assms,
    where P = "\<lambda>e t. length (history_entries e ch) = length (history_entries eng ch) \<or>
         (history_entries eng ch = [] \<and> length (history_entries e ch) = 1)"])
  show "length (history_entries eng ch) = length (history_entries eng ch) \<or>
         (history_entries eng ch = [] \<and> length (history_entries eng ch) = 1)" by simp
next
  fix v b e t r0 e0 t0
  assume p: "length (history_entries e ch) = length (history_entries eng ch) \<or>
         (history_entries eng ch = [] \<and> length (history_entries e ch) = 1)"
    and g: "getMap (gv_map b) v e t = (r0, e0, t0)"
  from getMap_entries[OF g, of ch] p
  show "length (history_entries e0 ch) = length (history_entries eng ch) \<or>
         (history_entries eng ch = [] \<and> length (history_entries e0 ch) = 1)"
    by (cases "history_entries e ch = []"; cases "history_entries e0 ch = []")
       (auto simp: le_Suc_eq)
qed simp

lemma push_bindings_keeps:
  assumes "push_bindings bs eng rt = (r, eng1, rt1)"
      and "list_all (\<lambda>(v, b). \<not> records_under ch fs (gv_map b)) bs"
      and "k \<in> set fs" and "k \<noteq> ''time''"
      and "history_field eng ch k = Some a"
  shows "history_field eng1 ch k = Some a"
proof (rule push_bindings_invariant[OF assms(1), where P = "\<lambda>e t. history_field e ch k = Some a"])
  show "history_field eng ch k = Some a" using assms(5) .
next
  fix v b e t r0 e0 t0
  assume m: "(v, b) \<in> set bs" and p: "history_field e ch k = Some a"
    and g: "getMap (gv_map b) v e t = (r0, e0, t0)"
  from m assms(2) have "\<not> records_under ch fs (gv_map b)" by (auto simp: list_all_iff)
  from getMap_keeps[OF g this assms(3,4) p] show "history_field e0 ch k = Some a" .
qed simp

lemma push_bindings_time:
  assumes "push_bindings bs (eng :: 'w engine) rt = (r, eng1, rt1)"
      and "list_all (\<lambda>(v, b). \<not> records_under ch fs (gv_map b)) bs"
      and "''time'' \<in> set fs"
      and "lo \<le> n" and "n < clock_reads rt"
      and "history_field eng ch ''time'' = Some (JNum ((clock rt n + 500) div 1000))"
  shows "\<exists>n'. lo \<le> n' \<and> n' < clock_reads rt1 \<and>
           history_field eng1 ch ''time'' = Some (JNum ((clock rt n' + 500) div 1000))"
proof -
  have "clock rt1 = clock rt \<and> (\<exists>n'. lo \<le> n' \<and> n' < clock_reads rt1 \<and>
           history_field eng1 ch ''time'' = Some (JNum ((clock rt n' + 500) div 1000)))"
  proof (rule push_bindings_invariant[OF assms(1),
      where P = "\<lambda>e t. clock t = clock rt \<and> (\<exists>n'. lo \<le> n' \<and> n' < clock_reads t \<and>
           history_field e ch ''time'' = Some (JNum ((clock rt n' + 500) div 1000)))"])
    show "clock rt = clock rt \<and> (\<exists>n'. lo \<le> n' \<and> n' < clock_reads rt \<and>
           history_field eng ch ''time'' = Some (JNum ((clock rt n' + 500) div 1000)))"
      using assms(4,5,6) by auto
  next
    fix v b e t r0 e0 t0
    assume m: "(v, b) \<in> set bs"
      and p: "clock t = clock rt \<and> (\<exists>n'. lo \<le> n' \<and> n' < clock_reads t \<and>
           history_field e ch ''time'' = Some (JNum ((clock rt n' + 500) div 1000)))"
      and g: "getMap (gv_map b) v e t = (r0, e0, t0)"
    from m assms(2) have nr: "\<not> records_under ch fs (gv_map b)" by (auto simp: list_all_iff)
    from p obtain n' where n': "lo \<le> n'" "n' < clock_reads t"
        "history_field e ch ''time'' = Some (JNum ((clock t n' + 500) div 1000))"
      by auto
    from getMap_time[OF g nr assms(3) n'] p getMap_frame(6)[OF g]
    show "clock t0 = clock rt \<and> (\<exists>n'. lo \<le> n' \<and> n' < clock_reads t0 \<and>
           history_field e0 ch ''time'' = Some (JNum ((clock rt n' + 500) div 1000)))"
      by simp
  next
    fix e :: "'w engine" and t :: "'w rt" and c cv
    assume "clock t = clock rt \<and> (\<exists>n'. lo \<le> n' \<and> n' < clock_reads t \<and>
           history_field e ch ''time'' = Some (JNum ((clock rt n' + 500) div 1000)))"
    then show "clock (emit (UpdateValue c cv) t) = clock rt \<and>
           (\<exists>n'. lo \<le> n' \<and> n' < clock_reads (emit (UpdateValue c cv) t) \<and>
           history_field e ch ''time'' = Some (JNum ((clock rt n' + 500) div 1000)))"
      by (simp add: emit_def)
  qed
  then show ?thesis by simp
qed

subsection \<open>The history handles of a configured engine\<close>

lemma foldl_handles:
  "(foldl (\<lambda>hs t. hs(t \<mapsto> x)) h ts ch = None) = (h ch = None \<and> ch \<notin> set ts)"
  by (induction ts arbitrary: h) auto

lemma add_binding_values:
  "set (concat (map ge_values (add_binding k b ps))) = insert b (set (concat (map ge_values ps)))"
proof (cases "index_where (\<lambda>prop. ge_key prop = k) ps")
  case None
  then show ?thesis by (simp add: add_binding_def)
next
  case (Some j)
  from index_where_Some[OF Some] have j: "j < length ps" by simp
  let ?x = "(ps ! j)\<lparr>ge_values := ge_values (ps ! j) @ [b]\<rparr>"
  have 1: "ps[j := ?x] = take j ps @ ?x # drop (Suc j) ps"
    using j by (rule upd_conv_take_nth_drop)
  have 2: "ps = take j ps @ (ps ! j) # drop (Suc j) ps"
    using j by (rule id_take_nth_drop)
  have "set (concat (map ge_values (take j ps @ ?x # drop (Suc j) ps)))
          = insert b (set (concat (map ge_values (take j ps @ (ps ! j) # drop (Suc j) ps))))"
    by auto
  with 1 2 have "set (concat (map ge_values (ps[j := ?x]))) = insert b (set (concat (map ge_values ps)))"
    by simp
  with Some show ?thesis by (simp add: add_binding_def)
qed

lemma register_bindings:
  assumes "register f eng acc rt = (Inr u, eng1, acc1, rt1)"
  shows "historyServices eng1 = historyServices eng \<and> features eng1 = features eng \<and>
         (\<forall>b \<in> set (concat (map ge_values (props eng1))).
            b \<in> set (concat (map ge_values (props eng))) \<or>
            (\<forall>t ht hk. gv_map b = HistoryMap t ht hk \<longrightarrow> f_historyType f = Some ht))"
  using assms
  by (auto simp: register_def Let_def add_binding_values simp del: set_concat
           split: sum.splits prod.splits variant.splits config_value.splits option.splits)

lemma register_all_bindings:
  assumes "register_all fs eng acc rt = (Inr u, eng1, acc1, rt1)"
  shows "historyServices eng1 = historyServices eng \<and> features eng1 = features eng \<and>
         (\<forall>b \<in> set (concat (map ge_values (props eng1))).
            b \<in> set (concat (map ge_values (props eng))) \<or>
            (\<forall>t ht hk. gv_map b = HistoryMap t ht hk \<longrightarrow> ht \<in> set (List.map_filter f_historyType fs)))"
  using assms
proof (induction fs arbitrary: eng acc rt)
  case Nil
  then show ?case by simp
next
  case (Cons f fs)
  obtain r0 e0 a0 t0 where g: "register f eng acc rt = (r0, e0, a0, t0)"
    by (metis prod_cases4)
  show ?case
  proof (cases r0)
    case (Inl err)
    with Cons.prems g show ?thesis by simp
  next
    case (Inr u0)
    with Cons.prems g have ra: "register_all fs e0 a0 t0 = (Inr u, eng1, acc1, rt1)" by simp
    from g Inr have g': "register f eng acc rt = (Inr u0, e0, a0, t0)" by simp
    note step = register_bindings[OF g']
    note rest = Cons.IH[OF ra]
    have mf: "\<And>ht. f_historyType f = Some ht \<Longrightarrow> ht \<in> set (List.map_filter f_historyType (f # fs))"
      by (simp add: List.map_filter_simps)
    have mf': "\<And>ht. ht \<in> set (List.map_filter f_historyType fs) \<Longrightarrow>
                 ht \<in> set (List.map_filter f_historyType (f # fs))"
      by (cases "f_historyType f") (simp_all add: List.map_filter_simps)
    show ?thesis
    proof (intro conjI ballI)
      show "historyServices eng1 = historyServices eng" using step rest by simp
      show "features eng1 = features eng" using step rest by simp
    next
      fix b assume b: "b \<in> set (concat (map ge_values (props eng1)))"
      from rest b have "b \<in> set (concat (map ge_values (props e0))) \<or>
            (\<forall>t ht hk. gv_map b = HistoryMap t ht hk \<longrightarrow> ht \<in> set (List.map_filter f_historyType fs))"
        by blast
      then show "b \<in> set (concat (map ge_values (props eng))) \<or>
            (\<forall>t ht hk. gv_map b = HistoryMap t ht hk \<longrightarrow>
               ht \<in> set (List.map_filter f_historyType (f # fs)))"
      proof
        assume "b \<in> set (concat (map ge_values (props e0)))"
        with step have "b \<in> set (concat (map ge_values (props eng))) \<or>
            (\<forall>t ht hk. gv_map b = HistoryMap t ht hk \<longrightarrow> f_historyType f = Some ht)"
          by blast
        with mf show ?thesis by blast
      next
        assume "\<forall>t ht hk. gv_map b = HistoryMap t ht hk \<longrightarrow> ht \<in> set (List.map_filter f_historyType fs)"
        with mf' show ?thesis by blast
      qed
    qed
  qed
qed

lemma configureAccessory_ready:
  assumes "configureAccessory (new_engine p fs) acc rt = (Inr u, eng, acc', rt')"
  shows "handles_ready eng"
proof -
  let ?n = "new_engine p fs"
  obtain r0 e0 a0 t0 where g: "register_all (features ?n) ?n acc rt = (r0, e0, a0, t0)"
    by (metis prod_cases4)
  show ?thesis
  proof (cases r0)
    case (Inl err)
    with assms g show ?thesis by (simp add: configureAccessory_def)
  next
    case (Inr u0)
    with g have g': "register_all (features ?n) ?n acc rt = (Inr u0, e0, a0, t0)" by simp
    note ra = register_all_bindings[OF g']
    have fe: "features e0 = fs" "props ?n = []" using ra by (simp_all add: new_engine_def)
    from assms g' have e: "props eng = props e0"
        "historyServices eng = foldl (\<lambda>hs t. hs(t \<mapsto> EveHistoryService_new)) (historyServices e0)
            (List.map_filter f_historyType (features e0))"
      by (auto simp: configureAccessory_def Let_def)
    show ?thesis unfolding handles_ready_def
    proof (intro ballI allI impI)
      fix q b t ht hk
      assume q: "q \<in> set (props eng)" and b: "b \<in> set (ge_values q)"
        and m: "gv_map b = HistoryMap t ht hk"
      from q b e(1) have "b \<in> set (concat (map ge_values (props e0)))" by auto
      with ra fe m have "ht \<in> set (List.map_filter f_historyType fs)" by auto
      then show "historyServices eng ht \<noteq> None"
        unfolding e(2) fe(1) by (simp add: foldl_handles)
    qed
  qed
qed

lemma update_handles:
  assumes "update eng rt = (r, eng', rt')"
  shows "props eng' = props eng \<and>
         (\<forall>ch. (historyServices eng' ch = None) = (historyServices eng ch = None))"
proof -
  let ?ks = "map ge_key (props eng)"
  obtain res w where f: "p_getProps (protocol eng) ?ks (world rt) = (res, w)"
    by (metis prod.exhaust)
  show ?thesis
  proof (cases res)
    case (Inl err)
    with f assms show ?thesis
      by (auto simp: update_def update_try_def emit_def Let_def)
  next
    case (Inr m)
    let ?rt0 = "(emit (GetPropsCall ?ks) rt)\<lparr>world := w\<rparr>"
    obtain r0 e0 t0 where g: "push_bindings (bindings_of m (props eng)) (eng\<lparr>cache := m\<rparr>) ?rt0 = (r0, e0, t0)"
      by (metis prod_cases3)
    have ut: "update_try eng rt = (r0, e0, t0)"
      using f Inr g by (simp add: update_try_def emit_def Let_def push_props_flat)
    from assms ut have "eng' = e0" by (cases r0) (auto simp: update_def)
    with push_bindings_frame[OF g] show ?thesis by simp
  qed
qed

lemma configured_ready: "configured eng \<Longrightarrow> handles_ready eng"
proof (induction rule: configured.induct)
  case (configured_new p fs acc rt eng acc' rt')
  then show ?case by (rule configureAccessory_ready)
next
  case (configured_update eng rt r eng' rt')
  from update_handles[OF configured_update.hyps(2)] configured_update.IH
  show ?case by (simp add: handles_ready_def)
next
  case (configured_getProp eng key gm rt r eng' rt')
  let ?v = "if truthy (js_get (cache eng) key) then js_get (cache eng) key else JNull"
  obtain r0 e0 t0 where g: "getMap gm ?v eng rt = (r0, e0, t0)"
    by (metis prod_cases3)
  from configured_getProp.hyps(2) g have "eng' = e0"
    by (cases r0) (simp_all add: getProp_def Let_def)
  with getMap_frame(2)[OF g] getMap_handles(1)[OF g] configured_getProp.IH
  show ?case by (simp add: handles_ready_def)
next
  case (configured_setProp eng entry v rt r eng' rt')
  from configured_setProp.hyps(2) have "eng' = eng"
    by (auto simp: setProp_def split: prod.splits sum.splits)
  with configured_setProp.IH show ?case by simp
qed

subsection \<open>Two recordings into one channel\<close>

text \<open>A recording, by what it leaves in the open entry.\<close>

lemma getMap_recorded:
  assumes "t v = Inr res" and "truthy res" and "historyServices eng ch \<noteq> None"
      and "getMap (HistoryMap t ch f) v eng rt = (r, eng1, rt1)"
  shows "r = Inr res"
    and "history_field eng1 ch f = Some (parseInt_blank rt res)"
    and "f \<noteq> ''time'' \<Longrightarrow>
           history_field eng1 ch ''time'' = Some (JNum ((clock rt (clock_reads rt) + 500) div 1000))"
    and "clock_reads rt1 = Suc (clock_reads rt)"
proof -
  from assms(3) obtain hs where hs: "historyServices eng ch = Some hs" by auto
  note eq = getMap_records[where t = t and v = v and f = f and rt = rt, OF assms(1,2) hs]
  from eq assms(4) show "r = Inr res" by simp
  from eq assms(4) show "history_field eng1 ch f = Some (parseInt_blank rt res)"
    by (auto simp: history_field_def getLastEntry_def)
  from eq assms(4) show "clock_reads rt1 = Suc (clock_reads rt)" by auto
  assume "f \<noteq> ''time''"
  with eq assms(4)
  show "history_field eng1 ch ''time'' = Some (JNum ((clock rt (clock_reads rt) + 500) div 1000))"
    by (auto simp: history_field_def getLastEntry_def)
qed

text \<open>
  The walk of a poll cycle over two recordings into one channel: \<open>xs\<close> before the first,
  \<open>ys\<close> between the two, \<open>zs\<close> after the second.
\<close>

lemma push_bindings_merge:
  assumes run: "push_bindings (xs @ (v1, b1) # ys @ (v2, b2) # zs) (eng :: 'w engine) rt = (r, eng', rt')"
      and handle: "historyServices eng ch \<noteq> None"
      and b1: "gv_map b1 = HistoryMap t1 ch f1" and b2: "gv_map b2 = HistoryMap t2 ch f2"
      and res1: "t1 v1 = Inr r1" "truthy r1" and res2: "t2 v2 = Inr r2" "truthy r2"
      and evaluated: "list_all (\<lambda>(v, b). \<not> isl (read_transform (gv_map b) v)) (xs @ ys)"
      and fields: "f1 \<noteq> f2" "f1 \<noteq> ''time''" "f2 \<noteq> ''time''"
      and between: "list_all (\<lambda>(v, b). \<not> records_under ch [f1] (gv_map b)) ys"
      and after: "list_all (\<lambda>(v, b). \<not> records_under ch [f1, f2, ''time''] (gv_map b)) zs"
  shows "history_field eng' ch f1 = Some (parseInt_blank rt r1)"
    and "history_field eng' ch f2 = Some (parseInt_blank rt r2)"
    and "\<exists>n. clock_reads rt + length (filter (recording eng) (xs @ (v1, b1) # ys)) \<le> n \<and>
             n < clock_reads rt' \<and>
             history_field eng' ch ''time'' = Some (JNum ((clock rt n + 500) div 1000)) \<and>
             (list_all (\<lambda>(v, b). \<not> writes_channel ch (gv_map b)) zs \<longrightarrow>
                n = clock_reads rt + length (filter (recording eng) (xs @ (v1, b1) # ys)))"
proof -
  let ?N = "clock_reads rt + length (filter (recording eng) (xs @ (v1, b1) # ys))"
  \<comment> \<open>the bindings before the first recording\<close>
  obtain rx ex tx where px: "push_bindings xs eng rt = (rx, ex, tx)"
    by (metis prod_cases3)
  from evaluated have okx: "list_all (\<lambda>(v, b). \<not> isl (read_transform (gv_map b) v)) xs"
    and oky: "list_all (\<lambda>(v, b). \<not> isl (read_transform (gv_map b) v)) ys" by simp_all
  have rx: "rx = Inr ()" using push_bindings_ok[OF px okx] .
  note fx = push_bindings_frame[OF px]
  from px rx have px': "push_bindings xs eng rt = (Inr (), ex, tx)" by simp
  have cx: "clock_reads tx = clock_reads rt + length (filter (recording eng) xs)"
    using push_bindings_reads[OF px'] .
  have hx: "historyServices ex ch \<noteq> None" using fx handle by simp
  have recx: "recording ex = recording eng" using fx by (intro recording_handles) simp
  \<comment> \<open>the first recording\<close>
  obtain q1 e1 u1 where g1: "getMap (HistoryMap t1 ch f1) v1 ex tx = (q1, e1, u1)"
    by (metis prod_cases3)
  note rec1 = getMap_recorded[where t = t1 and v = v1, OF res1 hx g1]
  let ?u1 = "emit (UpdateValue (gv_characteristic b1) r1) u1"
  have rest1: "push_bindings (ys @ (v2, b2) # zs) e1 ?u1 = (r, eng', rt')"
    using run px' g1 rec1(1) b1 by (simp add: push_bindings_append)
  have h1: "historyServices e1 ch \<noteq> None" using getMap_handles(1)[OF g1, of ch] hx by simp
  have rec_e1: "recording e1 = recording eng"
    using getMap_handles(1)[OF g1] fx by (intro recording_handles) simp
  have p1: "parseInt_blank u1 = parseInt_blank rt" "clock u1 = clock rt"
    using getMap_handles(2)[OF g1] getMap_frame(6)[OF g1] fx by simp_all
  have f1_1: "history_field e1 ch f1 = Some (parseInt_blank rt r1)"
    using rec1(2) fx by simp
  have c1: "clock_reads ?u1 = Suc (clock_reads rt + length (filter (recording eng) xs))"
    using rec1(4) cx by (simp add: emit_def)
  \<comment> \<open>the bindings between the two\<close>
  obtain ry ey ty where py: "push_bindings ys e1 ?u1 = (ry, ey, ty)"
    by (metis prod_cases3)
  have ry: "ry = Inr ()" using push_bindings_ok[OF py oky] .
  note fy = push_bindings_frame[OF py]
  from py ry have py': "push_bindings ys e1 ?u1 = (Inr (), ey, ty)" by simp
  have cy: "clock_reads ty = Suc (clock_reads rt + length (filter (recording eng) xs))
              + length (filter (recording eng) ys)"
    using push_bindings_reads[OF py'] c1 rec_e1 by simp
  have r1: "recording eng (v1, b1)" using b1 res1 handle by simp
  have cy': "clock_reads ty = ?N" using cy r1 by simp
  have hy: "historyServices ey ch \<noteq> None" using fy h1 by simp
  have py_rt: "parseInt_blank ty = parseInt_blank rt" "clock ty = clock rt"
    using fy p1 by (simp_all add: emit_def)
  have f1_y: "history_field ey ch f1 = Some (parseInt_blank rt r1)"
    using push_bindings_keeps[OF py between _ fields(2) f1_1] by simp
  \<comment> \<open>the second recording\<close>
  obtain q2 e2 u2 where g2: "getMap (HistoryMap t2 ch f2) v2 ey ty = (q2, e2, u2)"
    by (metis prod_cases3)
  note rec2 = getMap_recorded[where t = t2 and v = v2, OF res2 hy g2]
  let ?u2 = "emit (UpdateValue (gv_characteristic b2) r2) u2"
  have rest2: "push_bindings zs e2 ?u2 = (r, eng', rt')"
    using rest1 py' g2 rec2(1) b2 by (simp add: push_bindings_append)
  have p2: "clock ?u2 = clock rt"
    using getMap_frame(6)[OF g2] py_rt by (simp add: emit_def)
  have f2_2: "history_field e2 ch f2 = Some (parseInt_blank rt r2)"
    using rec2(2) py_rt by simp
  have f1_2: "history_field e2 ch f1 = Some (parseInt_blank rt r1)"
    using getMap_keeps[OF g2 _ _ fields(2) f1_y, of "[f1]"] fields(1) by simp
  have t2: "history_field e2 ch ''time'' = Some (JNum ((clock ?u2 ?N + 500) div 1000))"
    using rec2(3)[OF fields(3)] py_rt cy' p2 by simp
  have c2: "clock_reads ?u2 = Suc ?N" using rec2(4) cy' by (simp add: emit_def)
  \<comment> \<open>the bindings after the second\<close>
  show "history_field eng' ch f1 = Some (parseInt_blank rt r1)"
    using push_bindings_keeps[OF rest2 after _ fields(2) f1_2] by simp
  show "history_field eng' ch f2 = Some (parseInt_blank rt r2)"
    using push_bindings_keeps[OF rest2 after _ fields(3) f2_2] by simp
  have mono: "?N < clock_reads rt'" using push_bindings_frame[OF rest2] c2 by simp
  show "\<exists>n. ?N \<le> n \<and> n < clock_reads rt' \<and>
             history_field eng' ch ''time'' = Some (JNum ((clock rt n + 500) div 1000)) \<and>
             (list_all (\<lambda>(v, b). \<not> writes_channel ch (gv_map b)) zs \<longrightarrow> n = ?N)"
  proof (cases "list_all (\<lambda>(v, b). \<not> writes_channel ch (gv_map b)) zs")
    case True
    from push_bindings_quiet[OF rest2 True]
    have "history_field eng' ch ''time'' = history_field e2 ch ''time''"
      by (simp add: history_field_def)
    with t2 p2 mono show ?thesis by (intro exI[of _ ?N]) simp
  next
    case False
    have "\<exists>n'. ?N \<le> n' \<and> n' < clock_reads rt' \<and>
           history_field eng' ch ''time'' = Some (JNum ((clock ?u2 n' + 500) div 1000))"
      using push_bindings_time[OF rest2 after _ _ _ t2, of ?N] c2 by simp
    with False p2 show ?thesis by auto
  qed
qed

lemma ex_engine_built:
  "fst (configureAccessory (new_engine ex_protocol ex_table) [] (ex_rt True)) = Inr () \<and>
   fst (snd (configureAccessory (new_engine ex_protocol ex_table) [] (ex_rt True))) = ex_engine"
  by (simp add: configureAccessory_def new_engine_def ex_table_def register_def obtain_service_def
        model_feature_def humidity_reading_def humidity_feature_def temperature_reading_def
        temperature_feature_def led_feature_def sensor_feature_def getService_name_def
        getService_class_def addService_def new_service_def getCharacteristic_def getServiceId_def
        add_binding_def ex_props_def ex_engine_def emit_def Let_def ex_rt_def
        List.map_filter_simps)

text \<open>
  C8, amended. The engine is one that has configured an accessory (and has polled, read and
  written since, or not). Take a poll cycle of it whose \<^verbatim>\<open>getProps\<close> call returns, and two
  bindings of the index wrapped for the same history channel \<open>ch\<close> with the fields \<open>f1\<close> and
  \<open>f2\<close>, the one with \<open>f1\<close> visited first. Both are evaluated in the cycle (no read map
  called before the second throws) and their read transforms give the truthy results \<open>r1\<close>
  and \<open>r2\<close>. The fields differ from each other and from \<^verbatim>\<open>time\<close>; no binding visited
  after the first records into \<open>ch\<close> under \<open>f1\<close>, and none visited after the second under
  \<open>f2\<close> or \<^verbatim>\<open>time\<close>. Other bindings may record into \<open>ch\<close> under other fields, and read
  maps called after the second may throw. Then, after the cycle:

    \<^item> the open entry of \<open>ch\<close> holds \<^verbatim>\<open>parseInt(" " + r1)\<close> under \<open>f1\<close> and
      \<^verbatim>\<open>parseInt(" " + r2)\<close> under \<open>f2\<close>;

    \<^item> the log of \<open>ch\<close> has as many entries as before the cycle, or one if it had none: the
      two recordings went into one entry;

    \<^item> the entry has under \<^verbatim>\<open>time\<close> one clock reading of this cycle, in seconds, halves
      rounded up: a reading taken at the second recording or later and, when no binding
      visited after the second writes to \<open>ch\<close>, the very reading taken at the second
      recording. (Each recording reads the clock once, so that reading is the one numbered by
      the clock readings before the cycle plus the recordings of the cycle before the second
      one.)
\<close>

theorem history_merge:
  assumes conf: "configured eng"
      and fetch: "p_getProps (protocol eng) (map ge_key (props eng)) (world rt) = (Inr m, w)"
      and upd: "update eng rt = (r, eng', rt')"
      and order: "bindings_of m (props eng) = xs @ (v1, b1) # ys @ (v2, b2) # zs"
      and b1: "gv_map b1 = HistoryMap t1 ch f1" and b2: "gv_map b2 = HistoryMap t2 ch f2"
      and res1: "t1 v1 = Inr r1" "truthy r1" and res2: "t2 v2 = Inr r2" "truthy r2"
      and evaluated: "list_all (\<lambda>(v, b). \<not> isl (read_transform (gv_map b) v)) (xs @ ys)"
      and fields: "f1 \<noteq> f2" "f1 \<noteq> ''time''" "f2 \<noteq> ''time''"
      and between: "list_all (\<lambda>(v, b). \<not> records_under ch [f1] (gv_map b)) ys"
      and after: "list_all (\<lambda>(v, b). \<not> records_under ch [f1, f2, ''time''] (gv_map b)) zs"
  shows "history_field eng' ch f1 = Some (parseInt_blank rt r1) \<and>
         history_field eng' ch f2 = Some (parseInt_blank rt r2) \<and>
         length (history_entries eng' ch) = max 1 (length (history_entries eng ch)) \<and>
         (\<exists>n. clock_reads rt + length (filter (recording eng) (xs @ (v1, b1) # ys)) \<le> n \<and>
              n < clock_reads rt' \<and>
              history_field eng' ch ''time'' = Some (JNum ((clock rt n + 500) div 1000)) \<and>
              (list_all (\<lambda>(v, b). \<not> writes_channel ch (gv_map b)) zs \<longrightarrow>
                 n = clock_reads rt + length (filter (recording eng) (xs @ (v1, b1) # ys))))"
proof -
  let ?ks = "map ge_key (props eng)"
  let ?E = "eng\<lparr>cache := m\<rparr>"
  let ?R = "(emit (GetPropsCall ?ks) rt)\<lparr>world := w\<rparr>"
  let ?bs = "xs @ (v1, b1) # ys @ (v2, b2) # zs"
  \<comment> \<open>the channel has a handle, by the way the engine was built\<close>
  have "(v1, b1) \<in> set (bindings_of m (props eng))" unfolding order by simp
  then obtain p where "p \<in> set (props eng)" "b1 \<in> set (ge_values p)"
    by (auto simp: bindings_of_def)
  with configured_ready[OF conf] b1 have handle: "historyServices ?E ch \<noteq> None"
    by (auto simp: handles_ready_def)
  \<comment> \<open>the cycle is the walk over the bindings\<close>
  obtain r0 ez tz where run: "push_bindings ?bs ?E ?R = (r0, ez, tz)"
    by (metis prod_cases3)
  have ut: "update_try eng rt = (r0, ez, tz)"
    using fetch run order by (simp add: update_try_def emit_def Let_def push_props_flat)
  from upd ut have out: "eng' = ez" "clock_reads rt' = clock_reads tz"
    by (cases r0; auto simp: update_def emit_def Let_def)+
  have same: "recording ?E = recording eng" by (intro recording_handles) simp
  have ents: "history_entries ?E ch = history_entries eng ch" by (simp add: history_entries_def)
  note merge = push_bindings_merge[where ?t1.0 = t1 and ?t2.0 = t2 and ?v1.0 = v1 and ?v2.0 = v2,
      OF run handle b1 b2 res1 res2 evaluated fields between after]
  have one: "history_field eng' ch f1 = Some (parseInt_blank rt r1)"
    using merge(1) out by (simp add: emit_def)
  have two: "history_field eng' ch f2 = Some (parseInt_blank rt r2)"
    using merge(2) out by (simp add: emit_def)
  from one have open_entry: "history_entries eng' ch \<noteq> []"
    by (auto simp: history_field_def history_entries_def getLastEntry_def
             split: option.splits if_splits)
  have count: "length (history_entries eng' ch) = max 1 (length (history_entries eng ch))"
    using push_bindings_entries[OF run, of ch] open_entry out ents
    by (cases "history_entries eng ch") auto
  have stamp: "\<exists>n. clock_reads rt + length (filter (recording eng) (xs @ (v1, b1) # ys)) \<le> n \<and>
              n < clock_reads rt' \<and>
              history_field eng' ch ''time'' = Some (JNum ((clock rt n + 500) div 1000)) \<and>
              (list_all (\<lambda>(v, b). \<not> writes_channel ch (gv_map b)) zs \<longrightarrow>
                 n = clock_reads rt + length (filter (recording eng) (xs @ (v1, b1) # ys)))"
    using merge(3) out same by (simp add: emit_def)
  from one two count stamp show ?thesis by blast
qed

text \<open>
  The example: the engine of the example table is the one \<^verbatim>\<open>configureAccessory\<close> makes; its
  first poll puts humidity 47 and temperature 21 into one entry of the channel \<open>room\<close>, the
  first entry of that log, stamped with the second clock reading (61 seconds).
\<close>

theorem history_merge_witness:
  "configured ex_engine \<and>
   history_field (fst (snd (update ex_engine (ex_rt True)))) ''room'' ''humidity'' = Some (JNum 47) \<and>
   history_field (fst (snd (update ex_engine (ex_rt True)))) ''room'' ''temp'' = Some (JNum 21) \<and>
   history_field (fst (snd (update ex_engine (ex_rt True)))) ''room'' ''time'' = Some (JNum 61) \<and>
   history_entries ex_engine ''room'' = [] \<and>
   length (history_entries (fst (snd (update ex_engine (ex_rt True)))) ''room'') = 1"
proof -
  let ?c = "configureAccessory (new_engine ex_protocol ex_table) [] (ex_rt True)"
  let ?u = "update ex_engine (ex_rt True)"
  let ?b1 = "\<lparr>gv_characteristic = (''HumidifierDehumidifier'', ''CurrentRelativeHumidity''),
              gv_map = HistoryMap Inr ''room'' ''humidity''\<rparr>"
  let ?b2 = "\<lparr>gv_characteristic = (''TemperatureSensorTemperature'', ''CurrentTemperature''),
              gv_map = HistoryMap Inr ''room'' ''temp''\<rparr>"
  let ?ys = "[(JNum 47, \<lparr>gv_characteristic = (''HumiditySensorHumidity'', ''CurrentRelativeHumidity''),
                         gv_map = BaseMap Inr\<rparr>)]"
  let ?zs = "[(JNum 0, \<lparr>gv_characteristic = (''LightbulbLed'', ''On''), gv_map = BaseMap Inr\<rparr>)]"
  have "?c = (Inr (), ex_engine, fst (snd (snd ?c)), snd (snd (snd ?c)))"
    using ex_engine_built by (cases ?c) simp
  then have h0: "configured ex_engine" by (rule configured_new)
  have h1: "p_getProps (protocol ex_engine) (map ge_key (props ex_engine)) (world (ex_rt True))
              = (Inr ex_device, True)"
    by (simp add: ex_engine_def ex_protocol_def ex_rt_def)
  have h2: "?u = (fst ?u, fst (snd ?u), snd (snd ?u))" by simp
  have h4: "bindings_of ex_device (props ex_engine) = [] @ (JNum 47, ?b1) # ?ys @ (JNum 21, ?b2) # ?zs"
    by (simp add: bindings_of_def ex_engine_def ex_props_def ex_device_def js_get_def)
  have h5: "gv_map ?b1 = HistoryMap Inr ''room'' ''humidity''" by simp
  have h6: "gv_map ?b2 = HistoryMap Inr ''room'' ''temp''" by simp
  have h7: "list_all (\<lambda>(v, b). \<not> isl (read_transform (gv_map b) v)) ([] @ ?ys)" by simp
  have h8: "list_all (\<lambda>(v, b). \<not> records_under ''room'' [''humidity''] (gv_map b)) ?ys"
      "list_all (\<lambda>(v, b). \<not> records_under ''room'' [''humidity'', ''temp'', ''time''] (gv_map b)) ?zs"
    by simp_all
  have h9: "Inr (JNum 47) = (Inr (JNum 47) :: js_error + jsval)" "truthy (JNum 47)"
      "Inr (JNum 21) = (Inr (JNum 21) :: js_error + jsval)" "truthy (JNum 21)"
    by simp_all
  have h10: "''humidity'' \<noteq> ''temp''" "''humidity'' \<noteq> ''time''" "''temp'' \<noteq> ''time''"
    by simp_all
  have quiet: "list_all (\<lambda>(v, b). \<not> writes_channel ''room'' (gv_map b)) ?zs" by simp
  have n: "clock_reads (ex_rt True) + length (filter (recording ex_engine) ([] @ (JNum 47, ?b1) # ?ys)) = 1"
    by (simp add: ex_rt_def ex_engine_def)
  have v: "parseInt_blank (ex_rt True) (JNum 47) = JNum 47"
      "parseInt_blank (ex_rt True) (JNum 21) = JNum 21"
      "(clock (ex_rt True) 1 + 500) div 1000 = 61"
    by (simp_all add: ex_rt_def ex_parseInt_def)
  have e: "history_entries ex_engine ''room'' = []"
    by (simp add: history_entries_def ex_engine_def EveHistoryService_new_def)
  from history_merge[where ?t1.0 = Inr and ?t2.0 = Inr, OF h0 h1 h2 h4 h5 h6 h9 h7 h10 h8]
  have "history_field (fst (snd ?u)) ''room'' ''humidity'' = Some (JNum 47) \<and>
        history_field (fst (snd ?u)) ''room'' ''temp'' = Some (JNum 21) \<and>
        length (history_entries (fst (snd ?u)) ''room'') = 1 \<and>
        history_field (fst (snd ?u)) ''room'' ''time'' = Some (JNum 61)"
    unfolding n v e using quiet v(3) by auto
  with h0 e show ?thesis by simp
qed

text \<open>
  The claim as written fails in three ways, each on the first poll of a newly configured
  engine, which pushes the truthy results of all its bindings.

    \<^item> The second binding has the field \<^verbatim>\<open>time\<close>: the open entry carries the temperature
      21 as its time, which is neither of the two clock readings of the cycle (60 and 61
      seconds).

    \<^item> A third binding, visited last, has the field \<^verbatim>\<open>temp\<close> of the first: the open entry
      holds 47 under \<^verbatim>\<open>temp\<close>, not the 21 of the temperature binding, although the
      temperature and the humidity binding have distinct fields.

    \<^item> A third binding, visited last, has the field \<^verbatim>\<open>time\<close>: the open entry carries the
      humidity 47 as its time, none of the three clock readings of the cycle (60, 61 and 62
      seconds).
\<close>

theorem history_merge_counterexample:
  "pushes (new_events (ex_rt True) (snd (snd (update (configured_engine time_field_table) (ex_rt True)))))
     = [((''HumidifierDehumidifier'', ''CurrentRelativeHumidity''), JNum 47),
        ((''TemperatureSensorTemperature'', ''CurrentTemperature''), JNum 21)] \<and>
   history_field (fst (snd (update (configured_engine time_field_table) (ex_rt True)))) ''room'' ''humidity''
     = Some (JNum 47) \<and>
   history_field (fst (snd (update (configured_engine time_field_table) (ex_rt True)))) ''room'' ''time''
     = Some (JNum 21) \<and>
   clock_reads (snd (snd (update (configured_engine time_field_table) (ex_rt True)))) = 2 \<and>
   map (\<lambda>n. (clock (ex_rt True) n + 500) div 1000) [0, 1, 2] = [60, 61, 62] \<and>
   pushes (new_events (ex_rt True) (snd (snd (update (configured_engine shared_field_table) (ex_rt True)))))
     = [((''TemperatureSensorTemperature'', ''CurrentTemperature''), JNum 21),
        ((''HumidifierDehumidifier'', ''CurrentRelativeHumidity''), JNum 47),
        ((''HumiditySensorHumidity'', ''CurrentRelativeHumidity''), JNum 47)] \<and>
   history_field (fst (snd (update (configured_engine shared_field_table) (ex_rt True)))) ''room'' ''humidity''
     = Some (JNum 47) \<and>
   history_field (fst (snd (update (configured_engine shared_field_table) (ex_rt True)))) ''room'' ''temp''
     = Some (JNum 47) \<and>
   pushes (new_events (ex_rt True) (snd (snd (update (configured_engine late_time_table) (ex_rt True)))))
     = [((''TemperatureSensorTemperature'', ''CurrentTemperature''), JNum 21),
        ((''HumidifierDehumidifier'', ''CurrentRelativeHumidity''), JNum 47),
        ((''HumiditySensorHumidity'', ''CurrentRelativeHumidity''), JNum 47)] \<and>
   history_field (fst (snd (update (configured_engine late_time_table) (ex_rt True)))) ''room'' ''temp''
     = Some (JNum 21) \<and>
   history_field (fst (snd (update (configured_engine late_time_table) (ex_rt True)))) ''room'' ''humidity''
     = Some (JNum 47) \<and>
   clock_reads (snd (snd (update (configured_engine late_time_table) (ex_rt True)))) = 3 \<and>
   history_field (fst (snd (update (configured_engine late_time_table) (ex_rt True)))) ''room'' ''time''
     = Some (JNum 47)"
  by code_simp

text \<open>
  C9. When the read transform under a history wrapper gives a falsy result, the wrapper
  returns that result and changes nothing: no History Log call, no clock reading, the
  handles as they were; a poll pushes the falsy result to the characteristic.
\<close>

theorem history_skipped_on_falsy:
  assumes "oldMap it = Inr result" and "\<not> truthy result"
  shows "getMap (HistoryMap oldMap historyType historyKey) it eng rt = (Inr result, eng, rt) \<and>
         push_values it [\<lparr>gv_characteristic = c, gv_map = HistoryMap oldMap historyType historyKey\<rparr>] eng rt
           = (Inr (), eng, emit (UpdateValue c result) rt)"
  using assms by simp

text \<open>A led reading of 0 on a binding wrapped for the channel \<open>room\<close>.\<close>

theorem history_skipped_on_falsy_witness:
  "getMap (HistoryMap Inr ''room'' ''led'') (JNum 0) ex_engine (ex_rt True)
     = (Inr (JNum 0), ex_engine, ex_rt True) \<and>
   push_values (JNum 0) [\<lparr>gv_characteristic = (''LightbulbLed'', ''On''),
                          gv_map = HistoryMap Inr ''room'' ''led''\<rparr>] ex_engine (ex_rt True)
     = (Inr (), ex_engine, emit (UpdateValue (''LightbulbLed'', ''On'') (JNum 0)) (ex_rt True))"
proof -
  have h: "Inr (JNum 0) = (Inr (JNum 0) :: js_error + jsval)" "\<not> truthy (JNum 0)" by simp_all
  from history_skipped_on_falsy[where oldMap = Inr, OF h] show ?thesis by blast
qed

end
